theory Spec2Isabelle
  imports Main "HOL-Library.Char_ord" "HOL-Library.List_Lexorder" "HOL-Library.Multiset"
begin

section \<open>Python values, dictionaries and effects\<close>

text \<open>
  The scraper handles JSON scalars decoded by \<^verbatim>\<open>response.json()\<close>: null, integers and
  strings. Floating-point numbers, booleans and nested containers are outside this
  development.
\<close>

datatype pyval = PNone | PInt int | PStr string

datatype pyerror = KeyError | TypeError

text \<open>
  A Python \<^verbatim>\<open>dict\<close> is an association list in insertion order, read with \<open>map_of\<close>.
  \<^verbatim>\<open>d[k] = v\<close> replaces the value in place when the key is there and appends the pair
  otherwise.
\<close>

type_synonym ('k, 'v) dict = "('k \<times> 'v) list"

fun dict_set :: "('k, 'v) dict \<Rightarrow> 'k \<Rightarrow> 'v \<Rightarrow> ('k, 'v) dict" where
  "dict_set [] k v = [(k, v)]"
| "dict_set ((k', v') # d) k v =
     (if k' = k then (k, v) # d else (k', v') # dict_set d k v)"

text \<open>\<^verbatim>\<open>d.get(k)\<close>: the value, or \<^verbatim>\<open>None\<close> when the key is missing.\<close>

definition dict_get :: "(string, pyval) dict \<Rightarrow> string \<Rightarrow> pyval" where
  "dict_get d k = (case map_of d k of None \<Rightarrow> PNone | Some v \<Rightarrow> v)"

text \<open>
  Everything the program does to the outside world is recorded as an event. The logging
  configuration sets level INFO, so \<^verbatim>\<open>logging.debug\<close> calls emit nothing and are left out;
  a log event keeps the fixed text of the message and drops the interpolated arguments.
\<close>

datatype level = INFO | ERROR

datatype event =
    Log level string
  | Print string
  | HttpGet string
  | DbConnect
  | DbCreateTable string
  | DbInsert string "pyval \<times> pyval \<times> pyval"
  | DbRollback
  | DbCommit
  | DbClose

text \<open>The events that are a call to the HTTP API or to the database.\<close>

fun is_call :: "event \<Rightarrow> bool" where
  "is_call (Log l m) = False"
| "is_call (Print m) = False"
| "is_call ev = True"

section \<open>The analytics API\<close>

text \<open>
  One entry of the ranking response. The code reads two fields of it:
  \<^verbatim>\<open>s['channel_name']\<close>, a JSON string when present, and
  \<^verbatim>\<open>s.get('average_viewers', 0)\<close>. A field that is missing from the entry is \<open>None\<close>;
  a field that is there with the JSON value null is \<open>Some PNone\<close>.
\<close>

record entry =
  channel_name :: "string option"
  average_viewers :: "pyval option"

text \<open>
  A response: its status code and the \<^verbatim>\<open>'data'\<close> member of its JSON body (\<open>None\<close> when
  the body has no such member). The server is a function of the requested URL; the
  credentials sent in the headers are fixed for a run and are part of that function.
\<close>

record 'a response =
  status_code :: int
  data :: "'a option"

text \<open>\<^verbatim>\<open>response.json().get('data', default)\<close>.\<close>

definition get_data :: "'a \<Rightarrow> 'a response \<Rightarrow> 'a" where
  "get_data dflt response = (case data response of None \<Rightarrow> dflt | Some d \<Rightarrow> d)"

type_synonym record_dict = "(string, pyval) dict"

record server =
  channels :: "string \<Rightarrow> entry list response"
  channel :: "string \<Rightarrow> record_dict response"

definition base_url :: string where
  "base_url = ''https://streamscharts.com/api/jazz''"

definition platform :: string where
  "platform = ''twitch''"

definition testing_mode :: string where
  "testing_mode = ''&testing_mode=true''"

definition ranking_url :: string where
  "ranking_url = base_url @ ''/channels?platform='' @ platform @ ''&time=7-days'' @ testing_mode"

definition history_url :: "string \<Rightarrow> string \<Rightarrow> string" where
  "history_url streamer period =
     base_url @ ''/channels/'' @ streamer @ ''?platform='' @ platform @ ''&time='' @ period
       @ testing_mode"

text \<open>The two attributes of a \<^verbatim>\<open>GetStreamers\<close> object that its methods change.\<close>

record GetStreamers =
  streamers :: "string list"
  history_data :: "(string, record_dict list) dict"

definition GetStreamers_init :: GetStreamers where
  "GetStreamers_init = \<lparr>streamers = [], history_data = []\<rparr>"

section \<open>GetStreamers.scrape\<close>

text \<open>The sort key \<^verbatim>\<open>lambda s: s.get('average_viewers', 0)\<close>.\<close>

definition viewers_key :: "entry \<Rightarrow> pyval" where
  "viewers_key s = (case average_viewers s of None \<Rightarrow> PInt 0 | Some v \<Rightarrow> v)"

fun is_int :: "pyval \<Rightarrow> bool" where
  "is_int (PInt i) = True"
| "is_int v = False"

fun the_int :: "pyval \<Rightarrow> int" where
  "the_int (PInt i) = i"
| "the_int v = 0"

fun is_str :: "pyval \<Rightarrow> bool" where
  "is_str (PStr s) = True"
| "is_str v = False"

fun the_str :: "pyval \<Rightarrow> string" where
  "the_str (PStr s) = s"
| "the_str v = []"

text \<open>
  \<^verbatim>\<open>sorted(xs, key=key, reverse=True)\<close>. Python reverses the list, sorts it stably in
  ascending key order and reverses the result, so equal keys keep their original order.
  Keys are compared with \<^verbatim>\<open><\<close>: two integers or two strings compare, any other pair
  raises TypeError, and a list of at most one element is returned without a comparison.
  Every element of a longer list takes part in a comparison, so the sort raises exactly
  when the keys are neither all integers nor all strings.
\<close>

definition sorted_reverse :: "('a \<Rightarrow> pyval) \<Rightarrow> 'a list \<Rightarrow> pyerror + 'a list" where
  "sorted_reverse key xs =
     (if length xs \<le> 1 then Inr xs
      else if list_all (\<lambda>x. is_int (key x)) xs
        then Inr (rev (sort_key (\<lambda>x. the_int (key x)) (rev xs)))
      else if list_all (\<lambda>x. is_str (key x)) xs
        then Inr (rev (sort_key (\<lambda>x. the_str (key x)) (rev xs)))
      else Inl TypeError)"

text \<open>\<^verbatim>\<open>[s['channel_name'] for s in top_20]\<close>: the first entry without the field raises.\<close>

fun channel_names :: "entry list \<Rightarrow> pyerror + string list" where
  "channel_names [] = Inr []"
| "channel_names (s # rest) =
     (case channel_name s of
        None \<Rightarrow> Inl KeyError
      | Some n \<Rightarrow> (case channel_names rest of Inl e \<Rightarrow> Inl e | Inr ns \<Rightarrow> Inr (n # ns)))"

text \<open>
  The method returns its result (or the exception that leaves it), the object and the
  events. When an exception is raised the assignment to \<^verbatim>\<open>self.streamers\<close> has not
  happened.
\<close>

definition scrape :: "server \<Rightarrow> GetStreamers \<Rightarrow> (pyerror + string list) \<times> GetStreamers \<times> event list" where
  "scrape srv self =
     (let ev = [Log INFO ''Requesting Twitch streamers (limit: 20, sorted by average_viewers)...'',
                HttpGet ranking_url];
          response = channels srv ranking_url
      in if status_code response = 200 then
           (let d = get_data [] response
            in case sorted_reverse viewers_key d of
                 Inl e \<Rightarrow> (Inl e, self, ev)
               | Inr sorted_data \<Rightarrow>
                   (let top_20 = take 20 sorted_data
                    in case channel_names top_20 of
                         Inl e \<Rightarrow> (Inl e, self, ev)
                       | Inr names \<Rightarrow>
                           (Inr names, self\<lparr>streamers := names\<rparr>,
                            ev @ [Log INFO ''Found streamers (top 20 by average_viewers).''])))
         else (Inr [], self\<lparr>streamers := []\<rparr>, ev @ [Log ERROR ''Failed to fetch streamers'']))"

section \<open>GetStreamers.history\<close>

definition time_periods :: "string list" where
  "time_periods = [''7-days'', ''last-month'', ''last-year'']"

text \<open>
  The inner loop over the periods for one streamer. \<^verbatim>\<open>if data:\<close> is true for a
  non-empty dict; the record is then tagged with the period and appended to the
  streamer's list, which the outer loop has just stored under that key. The pause
  between requests is not modelled.
\<close>

fun history_periods ::
  "server \<Rightarrow> string \<Rightarrow> string list \<Rightarrow> GetStreamers \<times> event list \<Rightarrow> GetStreamers \<times> event list" where
  "history_periods srv streamer [] st = st"
| "history_periods srv streamer (period # periods) (self, ev) =
     (let url = history_url streamer period;
          response = channel srv url;
          ev1 = ev @ [HttpGet url]
      in history_periods srv streamer periods
           (if status_code response = 200 then
              (let d = get_data [] response
               in if d \<noteq> [] then
                    (let d' = dict_set d ''date'' (PStr period);
                         records = (case map_of (history_data self) streamer of
                                      None \<Rightarrow> [] | Some rs \<Rightarrow> rs)
                     in (self\<lparr>history_data :=
                                 dict_set (history_data self) streamer (records @ [d'])\<rparr>,
                         ev1 @ [Log INFO ''History record added.'']))
                  else (self, ev1))
            else (self, ev1 @ [Log ERROR ''Failed to fetch history''])))"

fun history_streamers ::
  "server \<Rightarrow> string list \<Rightarrow> GetStreamers \<times> event list \<Rightarrow> GetStreamers \<times> event list" where
  "history_streamers srv [] st = st"
| "history_streamers srv (streamer # rest) (self, ev) =
     history_streamers srv rest
       (history_periods srv streamer time_periods
          (self\<lparr>history_data := dict_set (history_data self) streamer []\<rparr>, ev))"

definition history ::
  "server \<Rightarrow> GetStreamers \<Rightarrow> (string, record_dict list) dict \<times> GetStreamers \<times> event list" where
  "history srv self =
     (let (self', ev) =
            history_streamers srv (streamers self)
              (self, [Log INFO ''Fetching history for each streamer at multiple time points...''])
      in (history_data self', self', ev))"

section \<open>Table names\<close>

text \<open>
  A Python string is the list of the bytes of its UTF-8 encoding, so a byte below 128 is
  an ASCII character and a character outside ASCII is a lead byte followed by
  continuation bytes.
\<close>

definition is_ascii :: "char \<Rightarrow> bool" where
  "is_ascii c \<longleftrightarrow> of_char c < (128 :: nat)"

text \<open>
  What Python takes from the Unicode character database, which is not part of the
  sources and is a parameter here: the result of \<^verbatim>\<open>str.lower()\<close> on a text that has a
  character outside ASCII (it depends on the context of a character: a capital sigma
  at the end of a word becomes a final sigma), and which pairs of characters, not both
  ASCII, are the two cases of one letter.
\<close>

record unicode =
  lower_text :: "string \<Rightarrow> string"
  case_pair :: "string \<Rightarrow> string \<Rightarrow> bool"

text \<open>
  \<^verbatim>\<open>str.lower()\<close>: on a text of ASCII characters the letters A to Z are replaced by a to z
  and every other character is kept; any other text is lower-cased by the database.
\<close>

definition lower_char :: "char \<Rightarrow> char" where
  "lower_char c =
     (if CHR ''A'' \<le> c \<and> c \<le> CHR ''Z'' then char_of (of_char c + (32 :: nat)) else c)"

definition lower :: "unicode \<Rightarrow> string \<Rightarrow> string" where
  "lower ucd s = (if list_all is_ascii s then map lower_char s else lower_text ucd s)"

text \<open>\<^verbatim>\<open>f"streamer_{streamer.lower()}"\<close>, as written in both \<^verbatim>\<open>database\<close> and \<^verbatim>\<open>format\<close>.\<close>

definition table_name :: "unicode \<Rightarrow> string \<Rightarrow> string" where
  "table_name ucd streamer = ''streamer_'' @ lower ucd streamer"

text \<open>The characters of a text: each lead byte with the continuation bytes after it.\<close>

definition continuation :: "char \<Rightarrow> bool" where
  "continuation c \<longleftrightarrow> (128 :: nat) \<le> of_char c \<and> of_char c < (192 :: nat)"

function characters :: "string \<Rightarrow> string list" where
  "characters [] = []"
| "characters (c # cs) = (c # takeWhile continuation cs) # characters (dropWhile continuation cs)"
  by pat_completeness auto
termination
  by (relation "measure length") (auto simp: less_Suc_eq_le length_dropWhile_le)

text \<open>
  Two keys differ only in letter case: they have the same number of characters, and
  position by position the characters are equal or are the two cases of one letter.
  For two one-byte characters these are the pairs A/a to Z/z; for any other pair of
  characters the database says so.
\<close>

definition same_letter :: "char \<Rightarrow> char \<Rightarrow> bool" where
  "same_letter c d \<longleftrightarrow>
     c = d
     \<or> (CHR ''A'' \<le> c \<and> c \<le> CHR ''Z'' \<and> of_char d = of_char c + (32 :: nat))
     \<or> (CHR ''A'' \<le> d \<and> d \<le> CHR ''Z'' \<and> of_char c = of_char d + (32 :: nat))"

fun same_character :: "unicode \<Rightarrow> string \<Rightarrow> string \<Rightarrow> bool" where
  "same_character ucd [c] [d] = same_letter c d"
| "same_character ucd x y = (x = y \<or> case_pair ucd x y)"

definition differ_only_in_case :: "unicode \<Rightarrow> string \<Rightarrow> string \<Rightarrow> bool" where
  "differ_only_in_case ucd a b \<longleftrightarrow>
     list_all2 (same_character ucd) (characters a) (characters b)"

section \<open>CompileData.format\<close>

type_synonym line = "pyval \<times> pyval \<times> pyval"

text \<open>The body of the inner loop: one record becomes \<^verbatim>\<open>(date, avg_viewers, stream_days)\<close>.\<close>

fun format_records :: "record_dict list \<Rightarrow> line list \<Rightarrow> line list" where
  "format_records [] lines = lines"
| "format_records (record # records) lines =
     (let avg_viewers = dict_get record ''average_viewers'';
          stream_days = dict_get record ''stream_days'';
          date = dict_get record ''date'';
          line = (date, avg_viewers, stream_days)
      in format_records records (lines @ [line]))"

fun format_items ::
  "unicode \<Rightarrow> (string, record_dict list) dict \<Rightarrow> (string, line list) dict
     \<Rightarrow> (string, line list) dict" where
  "format_items ucd [] streamer_lines = streamer_lines"
| "format_items ucd ((streamer, records) # items) streamer_lines =
     (let tbl = table_name ucd streamer;
          lines = format_records records []
      in format_items ucd items (dict_set streamer_lines tbl lines))"

definition format ::
  "unicode \<Rightarrow> (string, record_dict list) dict \<Rightarrow> (string, line list) dict \<times> event list" where
  "format ucd history_map =
     (format_items ucd history_map [],
      [Log INFO ''Formatting history data for per-streamer table insertion...''])"

section \<open>The relational store\<close>

text \<open>
  A table \<^verbatim>\<open>(date TEXT PRIMARY KEY, average_viewers INTEGER, stream_days INTEGER)\<close> is the
  list of its rows in insertion order; the database maps a table name to its table.
  How the driver and the engine turn a Python tuple into a row, or refuse it with an
  exception (a value that does not fit the column type, a null key), is a parameter
  of the development: \<open>None\<close> is the exception.
\<close>

type_synonym row = "string \<times> int option \<times> int option"
type_synonym database = "string \<Rightarrow> row list option"
type_synonym adapter = "line \<Rightarrow> row option"

text \<open>
  A connection without autocommit: \<open>durable\<close> is what is committed, \<open>current\<close> is what
  the open transaction sees. \<^verbatim>\<open>conn.rollback()\<close> returns to the committed state, and
  \<^verbatim>\<open>conn.commit()\<close> makes the current state the committed one. No other client writes
  to the database during a call. Table names are taken as they are: the engine's
  limit on the length of an identifier is not modelled.
\<close>

record session =
  durable :: database
  current :: database
  trace :: "event list"

definition connect :: "database \<Rightarrow> event list \<Rightarrow> session" where
  "connect db ev = \<lparr>durable = db, current = db, trace = ev @ [DbConnect]\<rparr>"

definition rollback :: "session \<Rightarrow> session" where
  "rollback s = s\<lparr>current := durable s, trace := trace s @ [DbRollback]\<rparr>"

definition commit :: "session \<Rightarrow> session" where
  "commit s = s\<lparr>durable := current s, trace := trace s @ [DbCommit]\<rparr>"

text \<open>\<^verbatim>\<open>CREATE TABLE IF NOT EXISTS\<close>: a new empty table, or nothing when the name is taken.\<close>

definition create_table :: "string \<Rightarrow> database \<Rightarrow> database" where
  "create_table tbl db = (case db tbl of None \<Rightarrow> db(tbl \<mapsto> []) | Some rows \<Rightarrow> db)"

text \<open>
  \<^verbatim>\<open>INSERT INTO tbl (date, average_viewers, stream_days) VALUES (%s, %s, %s)
  ON CONFLICT (date) DO NOTHING\<close>: an exception (\<open>None\<close>) when the table does not exist or
  the tuple is refused; otherwise the row is added unless a row with its date is there.
\<close>

definition insert_row :: "adapter \<Rightarrow> string \<Rightarrow> line \<Rightarrow> database \<Rightarrow> database option" where
  "insert_row adapt tbl ln db =
     (case db tbl of
        None \<Rightarrow> None
      | Some rows \<Rightarrow>
          (case adapt ln of
             None \<Rightarrow> None
           | Some r \<Rightarrow>
               Some (if fst r \<in> set (map fst rows) then db else db(tbl \<mapsto> rows @ [r]))))"

section \<open>CompileData.database\<close>

fun database_streamers :: "unicode \<Rightarrow> string list \<Rightarrow> session \<Rightarrow> session" where
  "database_streamers ucd [] s = s"
| "database_streamers ucd (streamer # rest) s =
     (let tbl = table_name ucd streamer
      in database_streamers ucd rest
           (s\<lparr>current := create_table tbl (current s),
              trace := trace s @ [DbCreateTable tbl]\<rparr>))"

definition database :: "unicode \<Rightarrow> string list \<Rightarrow> database \<Rightarrow> database \<times> event list" where
  "database ucd streamer_tables db =
     (let s0 = connect db [Log INFO ''Checking/creating PostgreSQL tables for each streamer...''];
          s1 = database_streamers ucd streamer_tables s0;
          s2 = commit s1
      in (durable s2, trace s2 @ [DbClose, Log INFO ''All streamer tables ready.'']))"

section \<open>CompileData.append\<close>

text \<open>
  The inner loop with its \<^verbatim>\<open>try\<close>/\<^verbatim>\<open>except\<close>: a failed insert is logged and followed by
  \<^verbatim>\<open>conn.rollback()\<close>.
\<close>

fun append_lines :: "adapter \<Rightarrow> string \<Rightarrow> line list \<Rightarrow> session \<Rightarrow> session" where
  "append_lines adapt tbl [] s = s"
| "append_lines adapt tbl (ln # lines) s =
     append_lines adapt tbl lines
       (case insert_row adapt tbl ln (current s) of
          Some db' \<Rightarrow> s\<lparr>current := db', trace := trace s @ [DbInsert tbl ln]\<rparr>
        | None \<Rightarrow>
            rollback (s\<lparr>trace := trace s @ [DbInsert tbl ln, Log ERROR ''Error inserting line'']\<rparr>))"

fun append_tables :: "adapter \<Rightarrow> (string, line list) dict \<Rightarrow> session \<Rightarrow> session" where
  "append_tables adapt [] s = s"
| "append_tables adapt ((tbl, lines) # items) s =
     append_tables adapt items (append_lines adapt tbl lines s)"

definition append :: "adapter \<Rightarrow> (string, line list) dict \<Rightarrow> database \<Rightarrow> database \<times> event list" where
  "append adapt streamer_lines db =
     (let s0 = connect db [Log INFO ''Appending data to each streamer's table in PostgreSQL...''];
          s1 = append_tables adapt streamer_lines s0;
          s2 = commit s1
      in (durable s2, trace s2 @ [DbClose, Log INFO ''All data appended to streamer tables.'']))"

section \<open>main\<close>

text \<open>
  \<^verbatim>\<open>os.getenv\<close> gives \<open>None\<close> for an unset variable; \<^verbatim>\<open>not x\<close> is true for \<open>None\<close> and
  for the empty string.
\<close>

record env =
  CLIENT_ID :: "string option"
  TOKEN :: "string option"

definition falsy :: "string option \<Rightarrow> bool" where
  "falsy v = (case v of None \<Rightarrow> True | Some s \<Rightarrow> s = [])"

text \<open>
  A run returns the exception that ended it, if any, the committed database and the
  events in order.
\<close>

definition main ::
  "unicode \<Rightarrow> env \<Rightarrow> server \<Rightarrow> adapter \<Rightarrow> database
     \<Rightarrow> pyerror option \<times> database \<times> event list" where
  "main ucd e srv adapt db =
     (let client_id = CLIENT_ID e;
          token = TOKEN e
      in if falsy client_id \<or> falsy token then
           (None, db, [Log ERROR ''CLIENT_ID or TOKEN not found in environment. Exiting.''])
         else
           (let gs = GetStreamers_init;
                (r, gs1, ev1) = scrape srv gs
            in case r of
                 Inl err \<Rightarrow> (Some err, db, ev1)
               | Inr strs \<Rightarrow>
                   (let (hist, gs2, ev2) = history srv gs1;
                        (db1, ev3) = database ucd strs db;
                        (streamer_lines, ev4) = format ucd hist;
                        (db2, ev5) = append adapt streamer_lines db1
                    in (None, db2,
                        ev1 @ [Print ''Streamers:''] @ ev2 @ ev3 @ ev4
                          @ [Print ''Formatted streamer lines:''] @ ev5))))"

section \<open>Concrete inputs\<close>

text \<open>
  An adapter for evaluating the program on concrete tuples. It agrees with psycopg2 and
  PostgreSQL on the tuples evaluated below: a string date with metrics that are null or
  32-bit integers is stored as it stands, an integer beyond 32 bits is refused
  (integer out of range) and so is a null date (null value in a key column). Tuples of
  any other shape are refused here and are never evaluated.
\<close>

fun int4 :: "pyval \<Rightarrow> int option option" where
  "int4 PNone = Some None"
| "int4 (PInt i) = (if - 2147483648 \<le> i \<and> i \<le> 2147483647 then Some (Some i) else None)"
| "int4 (PStr s) = None"

fun int4_adapter :: adapter where
  "int4_adapter (PStr d, a, s) =
     (case int4 a of
        None \<Rightarrow> None
      | Some a' \<Rightarrow> (case int4 s of None \<Rightarrow> None | Some s' \<Rightarrow> Some (d, a', s')))"
| "int4_adapter (v, a, s) = None"

text \<open>
  Three Greek texts in UTF-8: capital alpha, capital sigma; small alpha, small sigma;
  small alpha, final small sigma.
\<close>

definition capital_alpha_sigma :: string where
  "capital_alpha_sigma = [CHR 0xCE, CHR 0x91, CHR 0xCE, CHR 0xA3]"

definition small_alpha_sigma :: string where
  "small_alpha_sigma = [CHR 0xCE, CHR 0xB1, CHR 0xCF, CHR 0x83]"

definition small_alpha_final_sigma :: string where
  "small_alpha_final_sigma = [CHR 0xCE, CHR 0xB1, CHR 0xCF, CHR 0x82]"

text \<open>
  A database for evaluating the program on concrete texts. It agrees with Python 3 on
  the texts evaluated below: \<^verbatim>\<open>str.lower()\<close> of capital alpha, capital sigma is small
  alpha, final sigma, the small Greek texts are their own lower case, and alpha and
  sigma each have their capital and small forms (sigma also its final form) as cases.
\<close>

definition greek :: unicode where
  "greek =
     \<lparr>lower_text = (\<lambda>s. if s = capital_alpha_sigma then small_alpha_final_sigma else s),
      case_pair = (\<lambda>x y. (x, y) \<in> set [([CHR 0xCE, CHR 0x91], [CHR 0xCE, CHR 0xB1]),
                                         ([CHR 0xCE, CHR 0xA3], [CHR 0xCF, CHR 0x83]),
                                         ([CHR 0xCE, CHR 0xA3], [CHR 0xCF, CHR 0x82])]
                       \<or> (y, x) \<in> set [([CHR 0xCE, CHR 0x91], [CHR 0xCE, CHR 0xB1]),
                                         ([CHR 0xCE, CHR 0xA3], [CHR 0xCF, CHR 0x83]),
                                         ([CHR 0xCE, CHR 0xA3], [CHR 0xCF, CHR 0x82])])\<rparr>"

text \<open>A server that answers every request with status 500.\<close>

definition failing_server :: server where
  "failing_server =
     \<lparr>channels = (\<lambda>url. \<lparr>status_code = 500, data = None\<rparr>),
      channel = (\<lambda>url. \<lparr>status_code = 500, data = None\<rparr>)\<rparr>"

text \<open>An entry without \<^verbatim>\<open>average_viewers\<close> given the value 0 for it.\<close>

definition zero_missing :: "entry \<Rightarrow> entry" where
  "zero_missing s = (case average_viewers s of None \<Rightarrow> s\<lparr>average_viewers := Some (PInt 0)\<rparr> | Some v \<Rightarrow> s)"

text \<open>
  Servers with a fixed ranking response and no history: the ranking of the scenario
  with a tie added, a ranking whose only entry has no \<^verbatim>\<open>channel_name\<close>, and a ranking
  with the given entries.
\<close>

definition ranking_server :: server where
  "ranking_server =
     \<lparr>channels = (\<lambda>url. \<lparr>status_code = 200,
                          data = Some [\<lparr>channel_name = Some ''bar'', average_viewers = Some (PInt 50)\<rparr>,
                                       \<lparr>channel_name = Some ''foo'', average_viewers = Some (PInt 100)\<rparr>,
                                       \<lparr>channel_name = Some ''baz'', average_viewers = Some (PInt 50)\<rparr>]\<rparr>),
      channel = (\<lambda>url. \<lparr>status_code = 500, data = None\<rparr>)\<rparr>"

definition nameless_server :: server where
  "nameless_server =
     \<lparr>channels = (\<lambda>url. \<lparr>status_code = 200,
                          data = Some [\<lparr>channel_name = None, average_viewers = Some (PInt 5)\<rparr>]\<rparr>),
      channel = (\<lambda>url. \<lparr>status_code = 500, data = None\<rparr>)\<rparr>"

definition partial_server :: "entry list \<Rightarrow> server" where
  "partial_server entries =
     \<lparr>channels = (\<lambda>url. \<lparr>status_code = 200, data = Some entries\<rparr>),
      channel = (\<lambda>url. \<lparr>status_code = 500, data = None\<rparr>)\<rparr>"

text \<open>An environment with both credentials set.\<close>

definition some_env :: env where
  "some_env = \<lparr>CLIENT_ID = Some ''id'', TOKEN = Some ''token''\<rparr>"

section \<open>The append loop as a function of the database\<close>

text \<open>
  For the proofs: the two nested iterations of \<^verbatim>\<open>append\<close> seen as one iteration over
  (table, line) pairs that acts on the committed state \<open>c\<close> and on the state \<open>w\<close> of
  the open transaction. A pair is good when its table exists and its line is accepted;
  \<open>kept\<close> is the part of the batch after its last pair that is not good, which is what
  survives the rollbacks; a pair is present when its table has a row with its date.
\<close>

fun run_pairs :: "adapter \<Rightarrow> database \<Rightarrow> (string \<times> line) list \<Rightarrow> database \<Rightarrow> database" where
  "run_pairs adapt c [] w = w"
| "run_pairs adapt c (p # ps) w =
     run_pairs adapt c ps (case insert_row adapt (fst p) (snd p) w of Some w' \<Rightarrow> w' | None \<Rightarrow> c)"

definition pairs_of :: "(string, line list) dict \<Rightarrow> (string \<times> line) list" where
  "pairs_of items = concat (map (\<lambda>(tbl, lines). map (Pair tbl) lines) items)"

definition good :: "adapter \<Rightarrow> string set \<Rightarrow> string \<times> line \<Rightarrow> bool" where
  "good adapt D p \<longleftrightarrow> fst p \<in> D \<and> adapt (snd p) \<noteq> None"

definition ins :: "adapter \<Rightarrow> string \<times> line \<Rightarrow> database \<Rightarrow> database" where
  "ins adapt p w = (case insert_row adapt (fst p) (snd p) w of Some w' \<Rightarrow> w' | None \<Rightarrow> w)"

fun kept :: "adapter \<Rightarrow> string set \<Rightarrow> (string \<times> line) list \<Rightarrow> (string \<times> line) list" where
  "kept adapt D [] = []"
| "kept adapt D (p # ps) =
     (if list_all (good adapt D) ps then (if good adapt D p then p # ps else ps)
      else kept adapt D ps)"

definition present :: "adapter \<Rightarrow> database \<Rightarrow> string \<times> line \<Rightarrow> bool" where
  "present adapt w p \<longleftrightarrow>
     (\<exists>rows r. w (fst p) = Some rows \<and> adapt (snd p) = Some r \<and> fst r \<in> fst ` set rows)"

text \<open>The invariant of the store: within a table no two rows have the same date.\<close>

definition unique_dates :: "database \<Rightarrow> bool" where
  "unique_dates db \<longleftrightarrow> (\<forall>tbl rows. db tbl = Some rows \<longrightarrow> distinct (map fst rows))"

text \<open>A database with one table that already holds a row for the period \<^verbatim>\<open>7-days\<close>.\<close>

definition foo_database :: database where
  "foo_database = Map.empty(''streamer_foo'' \<mapsto> [(''7-days'', Some 100, Some 4)])"

section \<open>One history request\<close>

text \<open>
  The spec's \<^verbatim>\<open>fetchHistory(entity, window)\<close>, for comparison with the iteration in
  \<^verbatim>\<open>history\<close>: the record tagged with the window when the response has status 200 and
  non-empty data, and nothing otherwise. It looks at the response to this one request
  only.
\<close>

definition fetched :: "server \<Rightarrow> string \<Rightarrow> string \<Rightarrow> record_dict list" where
  "fetched srv streamer period =
     (let response = channel srv (history_url streamer period)
      in if status_code response = 200 \<and> get_data [] response \<noteq> []
         then [dict_set (get_data [] response) ''date'' (PStr period)] else [])"

text \<open>The tuple that \<^verbatim>\<open>format\<close> makes of one record.\<close>

definition line_of :: "record_dict \<Rightarrow> line" where
  "line_of record =
     (dict_get record ''date'', dict_get record ''average_viewers'', dict_get record ''stream_days'')"

text \<open>
  A server for the scenario of the spec: the ranking is foo, bar; the history of foo
  is there for \<^verbatim>\<open>7-days\<close> and \<^verbatim>\<open>last-year\<close>; every other history request fails with
  status 500.
\<close>

definition history_server :: server where
  "history_server =
     \<lparr>channels = (\<lambda>url. \<lparr>status_code = 200,
                          data = Some [\<lparr>channel_name = Some ''foo'', average_viewers = Some (PInt 100)\<rparr>,
                                       \<lparr>channel_name = Some ''bar'', average_viewers = Some (PInt 50)\<rparr>]\<rparr>),
      channel = (\<lambda>url.
        if url = history_url ''foo'' ''7-days''
          then \<lparr>status_code = 200,
                data = Some [(''average_viewers'', PInt 120), (''stream_days'', PInt 5)]\<rparr>
        else if url = history_url ''foo'' ''last-year''
          then \<lparr>status_code = 200,
                data = Some [(''average_viewers'', PInt 90), (''stream_days'', PInt 200)]\<rparr>
        else \<lparr>status_code = 500, data = None\<rparr>)\<rparr>"

section \<open>Dictionaries\<close>

lemma map_of_dict_set: "map_of (dict_set d k v) = (map_of d)(k \<mapsto> v)"
  by (induction d) auto

lemma set_dict_set: "set (dict_set d k v) \<subseteq> insert (k, v) (set d)"
  by (induction d) (auto split: if_splits)

lemma keys_dict_set: "fst ` set (dict_set d k v) = insert k (fst ` set d)"
  by (simp add: dom_map_of_conv_image_fst[symmetric] map_of_dict_set)

section \<open>Table names are shared by schema creation and normalization\<close>

lemma ascii_not_continuation: "is_ascii c \<Longrightarrow> \<not> continuation c"
  by (simp add: is_ascii_def continuation_def)

lemma characters_ascii: "list_all is_ascii s \<Longrightarrow> characters s = map (\<lambda>c. [c]) s"
proof (induction s)
  case Nil
  then show ?case by simp
next
  case (Cons c s)
  then have "takeWhile continuation s = []" "dropWhile continuation s = s"
    by (cases s; simp add: ascii_not_continuation)+
  with Cons show ?case by simp
qed

lemma differ_ascii:
  assumes "list_all is_ascii a" "list_all is_ascii b"
  shows "differ_only_in_case ucd a b \<longleftrightarrow> list_all2 same_letter a b"
  using assms by (simp add: differ_only_in_case_def characters_ascii list_all2_map1 list_all2_map2)

lemma lower_char_same: "same_letter c d \<Longrightarrow> lower_char c = lower_char d"
proof -
  have up: "lower_char x = y"
    if "CHR ''A'' \<le> x" "x \<le> CHR ''Z''" "of_char y = of_char x + (32::nat)" for x y
  proof -
    have "lower_char x = char_of (of_char x + (32::nat))"
      using that by (simp add: lower_char_def)
    also have "\<dots> = char_of (of_char y :: nat)"
      using that by simp
    finally show ?thesis by simp
  qed
  have low: "lower_char y = y"
    if "CHR ''A'' \<le> x" "of_char y = of_char x + (32::nat)" for x y
  proof -
    have "(65::nat) \<le> of_char x"
      using that(1) by (simp add: less_eq_char_def)
    then have "\<not> y \<le> CHR ''Z''"
      using that(2) by (simp add: less_eq_char_def)
    then show ?thesis by (simp add: lower_char_def)
  qed
  assume "same_letter c d"
  then show ?thesis
    unfolding same_letter_def using up low by metis
qed

lemma lower_chars_same: "list_all2 same_letter a b \<Longrightarrow> map lower_char a = map lower_char b"
  by (induction a b rule: list_all2_induct) (simp_all add: lower_char_same)

lemma lower_same:
  assumes "list_all is_ascii a" "list_all is_ascii b" "differ_only_in_case ucd a b"
  shows "lower ucd a = lower ucd b"
  using assms lower_chars_same by (simp add: lower_def differ_ascii)

lemma of_char_lower_char:
  assumes "CHR ''A'' \<le> c" "c \<le> CHR ''Z''"
  shows "of_char (lower_char c) = of_char c + (32 :: nat)"
proof -
  have r: "(65::nat) \<le> of_char c" "of_char c \<le> (90::nat)"
    using assms by (simp_all add: less_eq_char_def)
  then have "of_char (char_of (of_char c + (32::nat))) = of_char c + (32::nat)"
    by (simp add: of_char_of)
  then show ?thesis using assms by (simp add: lower_char_def)
qed

lemma lower_char_not_upper: "\<not> (CHR ''A'' \<le> lower_char c \<and> lower_char c \<le> CHR ''Z'')"
proof (cases "CHR ''A'' \<le> c \<and> c \<le> CHR ''Z''")
  case False
  then have "lower_char c = c" by (auto simp: lower_char_def)
  with False show ?thesis by simp
next
  case True
  then have "of_char (lower_char c) = of_char c + (32 :: nat)" "(65::nat) \<le> of_char c"
    using of_char_lower_char by (simp_all add: less_eq_char_def)
  then have "\<not> lower_char c \<le> CHR ''Z''"
    by (simp add: less_eq_char_def)
  then show ?thesis by simp
qed

lemma same_letter_lower_char: "same_letter c (lower_char c)"
proof (cases "CHR ''A'' \<le> c \<and> c \<le> CHR ''Z''")
  case False
  then have "lower_char c = c" by (auto simp: lower_char_def)
  then show ?thesis by (simp add: same_letter_def)
next
  case True
  then show ?thesis using of_char_lower_char by (simp add: same_letter_def)
qed

lemma is_ascii_lower_char: "is_ascii c \<Longrightarrow> is_ascii (lower_char c)"
proof (cases "CHR ''A'' \<le> c \<and> c \<le> CHR ''Z''")
  case False
  then have "lower_char c = c" by (auto simp: lower_char_def)
  then show "is_ascii c \<Longrightarrow> is_ascii (lower_char c)" by simp
next
  case True
  then have "of_char (lower_char c) = of_char c + (32 :: nat)" "of_char c \<le> (90::nat)"
    using of_char_lower_char by (simp_all add: less_eq_char_def)
  then show "is_ascii (lower_char c)" by (simp add: is_ascii_def)
qed

lemma lower_ascii:
  assumes "list_all is_ascii k"
  shows "list_all is_ascii (lower ucd k)"
    and "differ_only_in_case ucd k (lower ucd k)"
    and "list_all (\<lambda>c. \<not> (CHR ''A'' \<le> c \<and> c \<le> CHR ''Z'')) (lower ucd k)"
proof -
  have l: "lower ucd k = map lower_char k"
    using assms by (simp add: lower_def)
  show a: "list_all is_ascii (lower ucd k)"
    using assms by (simp add: l list_all_iff is_ascii_lower_char)
  have "list_all2 same_letter k (map lower_char k)"
    by (simp add: list_all2_map2 list_all2_same same_letter_lower_char)
  then show "differ_only_in_case ucd k (lower ucd k)"
    using differ_ascii[OF assms a, of ucd] by (simp add: l)
  show "list_all (\<lambda>c. \<not> (CHR ''A'' \<le> c \<and> c \<le> CHR ''Z'')) (lower ucd k)"
    unfolding l list_all_iff using lower_char_not_upper by auto
qed

lemma format_records_map:
  "format_records records lines =
     lines @ map (\<lambda>r. (dict_get r ''date'', dict_get r ''average_viewers'',
                         dict_get r ''stream_days'')) records"
  by (induction records arbitrary: lines) simp_all

lemma keys_format_items:
  "fst ` set (format_items ucd items acc) = fst ` set acc \<union> table_name ucd ` fst ` set items"
proof (induction items arbitrary: acc)
  case Nil
  then show ?case by simp
next
  case (Cons item items)
  obtain s rs where item: "item = (s, rs)" by (cases item)
  show ?case by (simp add: item Cons.IH keys_dict_set)
qed

lemma format_items_source:
  "(t, lines) \<in> set (format_items ucd items acc) \<Longrightarrow>
     (t, lines) \<in> set acc \<or>
     (\<exists>(s, rs) \<in> set items. t = table_name ucd s \<and> lines = format_records rs [])"
proof (induction items arbitrary: acc)
  case Nil
  then show ?case by simp
next
  case (Cons item items)
  obtain s rs where item: "item = (s, rs)" by (cases item)
  from Cons.prems
  have "(t, lines) \<in> set (format_items ucd items (dict_set acc (table_name ucd s) (format_records rs [])))"
    by (simp add: item)
  from Cons.IH[OF this] show ?case
    using set_dict_set[of acc "table_name ucd s" "format_records rs []"] by (auto simp: item)
qed

lemma dom_create_table: "dom (create_table t db) = insert t (dom db)"
  by (auto simp: create_table_def split: option.splits)

lemma database_streamers_current:
  "dom (current (database_streamers ucd ks s)) = dom (current s) \<union> table_name ucd ` set ks"
  by (induction ks arbitrary: s) (auto simp: dom_create_table Let_def)

lemma dom_database: "dom (fst (database ucd ks db)) = dom db \<union> table_name ucd ` set ks"
  by (simp add: database_def Let_def commit_def connect_def database_streamers_current)

text \<open>
  C5, as amended. The table name is the fixed prefix \<^verbatim>\<open>streamer_\<close> followed by the
  lower-cased key, so it is a function of the key alone. For a key of ASCII characters
  the lower-cased key consists of ASCII characters, differs from the key only in letter
  case and has no upper-case letter. Two keys of ASCII characters that differ only in
  letter case get the same table name. The names that \<^verbatim>\<open>format\<close> uses as keys of its
  result are the names of the tables that \<^verbatim>\<open>database\<close> creates for the same entity keys.
\<close>

theorem table_name_derivation:
  "table_name ucd k = ''streamer_'' @ lower ucd k
   \<and> (list_all is_ascii k \<longrightarrow>
          list_all is_ascii (lower ucd k)
        \<and> differ_only_in_case ucd k (lower ucd k)
        \<and> list_all (\<lambda>c. \<not> (CHR ''A'' \<le> c \<and> c \<le> CHR ''Z'')) (lower ucd k))
   \<and> (list_all is_ascii a \<and> list_all is_ascii b \<and> differ_only_in_case ucd a b
          \<longrightarrow> table_name ucd a = table_name ucd b)
   \<and> fst ` set (fst (format ucd history_map)) = table_name ucd ` fst ` set history_map
   \<and> dom (fst (database ucd (map fst history_map) db))
       = dom db \<union> table_name ucd ` fst ` set history_map"
proof -
  have 1: "table_name ucd k = ''streamer_'' @ lower ucd k"
    by (simp add: table_name_def)
  have 2: "list_all is_ascii (lower ucd k) \<and> differ_only_in_case ucd k (lower ucd k)
        \<and> list_all (\<lambda>c. \<not> (CHR ''A'' \<le> c \<and> c \<le> CHR ''Z'')) (lower ucd k)"
    if "list_all is_ascii k"
    using lower_ascii[OF that] by blast
  have 3: "table_name ucd a = table_name ucd b"
    if "list_all is_ascii a \<and> list_all is_ascii b \<and> differ_only_in_case ucd a b"
    using that lower_same[of a b ucd] by (simp add: table_name_def)
  have 4: "fst ` set (fst (format ucd history_map)) = table_name ucd ` fst ` set history_map"
    by (simp add: format_def keys_format_items)
  have 5: "dom (fst (database ucd (map fst history_map) db))
       = dom db \<union> table_name ucd ` fst ` set history_map"
    by (simp add: dom_database)
  from 1 2 3 4 5 show ?thesis by blast
qed

theorem table_name_derivation_witness:
  "list_all is_ascii ''FooBar_9'' \<and> list_all is_ascii ''foobar_9''
   \<and> differ_only_in_case greek ''FooBar_9'' ''foobar_9'' \<and> ''FooBar_9'' \<noteq> ''foobar_9''
   \<and> table_name greek ''FooBar_9'' = table_name greek ''foobar_9''
   \<and> differ_only_in_case greek ''FooBar_9'' (lower greek ''FooBar_9'')
   \<and> table_name greek ''FooBar_9'' = ''streamer_foobar_9''"
proof -
  have a: "list_all is_ascii ''FooBar_9''" and b: "list_all is_ascii ''foobar_9''"
    by code_simp+
  have h: "differ_only_in_case greek ''FooBar_9'' ''foobar_9''"
    by code_simp
  from table_name_derivation[where ucd = greek and a = "''FooBar_9''" and b = "''foobar_9''"
      and k = "''FooBar_9''"] a b h
  have c: "table_name greek ''FooBar_9'' = table_name greek ''foobar_9''"
    and d: "differ_only_in_case greek ''FooBar_9'' (lower greek ''FooBar_9'')"
    by blast+
  have v: "table_name greek ''FooBar_9'' = ''streamer_foobar_9''"
    by code_simp
  from a b h c d v show ?thesis by simp
qed

text \<open>
  C5 as stated fails: the Greek keys capital alpha, capital sigma and small alpha,
  small sigma differ only in letter case, and \<^verbatim>\<open>str.lower()\<close> turns the first into small
  alpha, final sigma and keeps the second, so the two keys get different table names.
\<close>

theorem table_name_derivation_counterexample:
  "differ_only_in_case greek capital_alpha_sigma small_alpha_sigma
   \<and> table_name greek capital_alpha_sigma = ''streamer_'' @ small_alpha_final_sigma
   \<and> table_name greek small_alpha_sigma = ''streamer_'' @ small_alpha_sigma
   \<and> table_name greek capital_alpha_sigma \<noteq> table_name greek small_alpha_sigma"
  by code_simp

section \<open>Missing credentials\<close>

text \<open>
  C6. When \<^verbatim>\<open>CLIENT_ID\<close> or \<^verbatim>\<open>TOKEN\<close> is not set, the run logs one error and returns:
  the database is unchanged and the trace holds no HTTP request and no database call.
\<close>

theorem main_missing_credentials:
  "CLIENT_ID e = None \<or> TOKEN e = None \<Longrightarrow>
     main ucd e srv adapt db =
       (None, db, [Log ERROR ''CLIENT_ID or TOKEN not found in environment. Exiting.''])
     \<and> filter is_call (snd (snd (main ucd e srv adapt db))) = []"
  by (auto simp: main_def falsy_def)

theorem main_missing_credentials_witness:
  "(CLIENT_ID \<lparr>CLIENT_ID = None, TOKEN = Some ''token''\<rparr> = None
      \<or> TOKEN \<lparr>CLIENT_ID = None, TOKEN = Some ''token''\<rparr> = None)
   \<and> filter is_call
        (snd (snd (main greek \<lparr>CLIENT_ID = None, TOKEN = Some ''token''\<rparr> failing_server
                     int4_adapter Map.empty))) = []"
proof -
  have h: "CLIENT_ID \<lparr>CLIENT_ID = None, TOKEN = Some ''token''\<rparr> = None
      \<or> TOKEN \<lparr>CLIENT_ID = None, TOKEN = Some ''token''\<rparr> = None"
    by simp
  from main_missing_credentials[OF h, of greek failing_server int4_adapter Map.empty] h
  show ?thesis by blast
qed

section \<open>A ranking request that fails\<close>

text \<open>
  C7. When the status of the ranking response is not 200 (so in particular whenever it
  is not a success status), \<^verbatim>\<open>scrape\<close> returns the empty list without raising, stores
  the empty list in the object and logs the failure at error level.
\<close>

theorem scrape_failure_status:
  "status_code (channels srv ranking_url) \<noteq> 200 \<Longrightarrow>
     scrape srv self =
       (Inr [], self\<lparr>streamers := []\<rparr>,
        [Log INFO ''Requesting Twitch streamers (limit: 20, sorted by average_viewers)...'',
         HttpGet ranking_url,
         Log ERROR ''Failed to fetch streamers''])"
  by (simp add: scrape_def)

theorem scrape_failure_status_witness:
  "status_code (channels failing_server ranking_url) \<noteq> 200
   \<and> fst (scrape failing_server GetStreamers_init) = Inr []"
proof -
  have h: "status_code (channels failing_server ranking_url) \<noteq> 200"
    by (simp add: failing_server_def)
  from scrape_failure_status[OF h, of GetStreamers_init] h
  show ?thesis by simp
qed

section \<open>Missing numeric fields\<close>



section \<open>The ranking: sorted, stable, at most 20\<close>

lemma sorted_reverse_int:
  assumes "\<forall>x \<in> set xs. is_int (key x)"
  shows "sorted_reverse key xs = Inr (rev (sort_key (\<lambda>x. the_int (key x)) (rev xs)))"
proof (cases "length xs \<le> 1")
  case True
  then have "xs = [] \<or> (\<exists>x. xs = [x])"
    by (cases xs) (auto simp: length_Suc_conv)
  then show ?thesis by (auto simp: sorted_reverse_def)
next
  case False
  with assms show ?thesis by (simp add: sorted_reverse_def list_all_iff)
qed

lemma stable_desc_mset: "mset (rev (sort_key f (rev xs))) = mset xs"
  by simp

lemma stable_desc_sorted:
  "sorted_wrt (\<lambda>a b. f b \<le> f a) (rev (sort_key f (rev xs)))"
proof -
  have "sorted (map f (sort_key f (rev xs)))" by (rule sorted_sort_key)
  then have "sorted_wrt (\<lambda>a b. f a \<le> f b) (sort_key f (rev xs))"
    by (simp add: sorted_map)
  then show ?thesis by (simp add: sorted_wrt_rev)
qed

lemma stable_desc_filter:
  "filter (\<lambda>y. f y = k) (rev (sort_key f (rev xs))) = filter (\<lambda>y. f y = k) xs"
  by (simp add: rev_filter[symmetric] sort_key_stable)

lemma channel_names_all:
  "\<forall>s \<in> set xs. channel_name s \<noteq> None \<Longrightarrow>
     \<exists>names. channel_names xs = Inr names \<and> map Some names = map channel_name xs"
  by (induction xs) auto

lemma channel_names_missing:
  "\<exists>s \<in> set xs. channel_name s = None \<Longrightarrow> channel_names xs = Inl KeyError"
proof (induction xs)
  case Nil
  then show ?case by simp
next
  case (Cons x xs)
  show ?case
  proof (cases "channel_name x")
    case None
    then show ?thesis by simp
  next
    case (Some n)
    with Cons.prems have "\<exists>s \<in> set xs. channel_name s = None" by auto
    from Cons.IH[OF this] Some show ?thesis by simp
  qed
qed

text \<open>
  C3, as amended. When the ranking response has status 200, every entry has a
  \<^verbatim>\<open>channel_name\<close> and every \<^verbatim>\<open>average_viewers\<close> is an integer (or missing, which counts
  as 0), \<^verbatim>\<open>scrape\<close> returns the channel names of the first 20 entries of a list \<open>zs\<close>
  that is a permutation of the response, is in descending order of the metric and keeps
  entries with equal metric in their response order. The result has 20 names when the
  response has at least 20 entries and as many names as the response otherwise.
\<close>

theorem scrape_sorted_top_20:
  assumes ok: "status_code (channels srv ranking_url) = 200"
    and wf: "\<forall>s \<in> set (get_data [] (channels srv ranking_url)).
               channel_name s \<noteq> None \<and> is_int (viewers_key s)"
  shows "\<exists>names zs.
           fst (scrape srv self) = Inr names
         \<and> mset zs = mset (get_data [] (channels srv ranking_url))
         \<and> sorted_wrt (\<lambda>a b. the_int (viewers_key b) \<le> the_int (viewers_key a)) zs
         \<and> (\<forall>k. filter (\<lambda>s. the_int (viewers_key s) = k) zs
                 = filter (\<lambda>s. the_int (viewers_key s) = k) (get_data [] (channels srv ranking_url)))
         \<and> map Some names = map channel_name (take 20 zs)
         \<and> length names = min 20 (length (get_data [] (channels srv ranking_url)))"
proof -
  define d where "d = get_data [] (channels srv ranking_url)"
  define zs where "zs = rev (sort_key (\<lambda>s. the_int (viewers_key s)) (rev d))"
  have sorted: "sorted_reverse viewers_key d = Inr zs"
    unfolding zs_def using wf by (intro sorted_reverse_int) (simp add: d_def)
  have perm: "mset zs = mset d" by (simp add: zs_def)
  then have "set zs = set d" by (metis set_mset_mset)
  then have "\<forall>s \<in> set (take 20 zs). channel_name s \<noteq> None"
    using wf by (auto simp: d_def dest: in_set_takeD)
  from channel_names_all[OF this] obtain names
    where names: "channel_names (take 20 zs) = Inr names"
      and eq: "map Some names = map channel_name (take 20 zs)" by blast
  have res: "fst (scrape srv self) = Inr names"
    using ok sorted names by (simp add: scrape_def d_def[symmetric])
  have "length names = length (map Some names)" by simp
  also have "\<dots> = min 20 (length d)"
    unfolding eq using perm by (simp add: zs_def min.commute)
  finally have len: "length names = min 20 (length d)" .
  show ?thesis
    using res perm eq len stable_desc_sorted[of "\<lambda>s. the_int (viewers_key s)" d]
      stable_desc_filter[of "\<lambda>s. the_int (viewers_key s)" _ d]
    unfolding zs_def[symmetric] d_def[symmetric] by blast
qed

theorem scrape_sorted_top_20_witness:
  "status_code (channels ranking_server ranking_url) = 200
   \<and> list_all (\<lambda>s. channel_name s \<noteq> None \<and> is_int (viewers_key s))
        (get_data [] (channels ranking_server ranking_url))
   \<and> (\<exists>names. fst (scrape ranking_server GetStreamers_init) = Inr names \<and> length names = 3)
   \<and> fst (scrape ranking_server GetStreamers_init) = Inr [''foo'', ''bar'', ''baz'']"
proof -
  have h1: "status_code (channels ranking_server ranking_url) = 200"
    by (simp add: ranking_server_def)
  have h2: "\<forall>s \<in> set (get_data [] (channels ranking_server ranking_url)).
          channel_name s \<noteq> None \<and> is_int (viewers_key s)"
    by (simp add: ranking_server_def get_data_def viewers_key_def)
  have len: "min 20 (length (get_data [] (channels ranking_server ranking_url))) = 3"
    by (simp add: ranking_server_def get_data_def)
  from scrape_sorted_top_20[OF h1 h2, of GetStreamers_init]
  have c: "\<exists>names. fst (scrape ranking_server GetStreamers_init) = Inr names \<and> length names = 3"
    unfolding len by blast
  have v: "fst (scrape ranking_server GetStreamers_init) = Inr [''foo'', ''bar'', ''baz'']"
    by code_simp
  from h2 have h2': "list_all (\<lambda>s. channel_name s \<noteq> None \<and> is_int (viewers_key s))
        (get_data [] (channels ranking_server ranking_url))"
    by (simp add: list_all_iff)
  from h1 h2' c v show ?thesis by blast
qed

text \<open>
  C3 as stated fails: a response with status 200 whose entry has no \<^verbatim>\<open>channel_name\<close>
  makes \<^verbatim>\<open>scrape\<close> raise KeyError instead of returning a sequence.
\<close>

theorem scrape_sorted_top_20_counterexample:
  "fst (scrape nameless_server GetStreamers_init) = Inl KeyError"
  by code_simp

section \<open>Entries that are not validated\<close>

lemma insort_key_map:
  "insort_key f (g x) (map g ys) = map g (insort_key (\<lambda>y. f (g y)) x ys)"
  by (induction ys) simp_all

lemma sort_key_map: "sort_key f (map g xs) = map g (sort_key (\<lambda>y. f (g y)) xs)"
  by (induction xs) (simp_all add: insort_key_map)

lemma viewers_key_zero_missing: "viewers_key (zero_missing s) = viewers_key s"
  by (simp add: viewers_key_def zero_missing_def split: option.splits)

lemma channel_name_zero_missing: "channel_name (zero_missing s) = channel_name s"
  by (simp add: zero_missing_def split: option.splits)

lemma sorted_reverse_zero_missing:
  "sorted_reverse viewers_key (map zero_missing d) =
     (case sorted_reverse viewers_key d of Inl e \<Rightarrow> Inl e | Inr zs \<Rightarrow> Inr (map zero_missing zs))"
proof -
  have i: "sort_key (\<lambda>x. the_int (viewers_key x)) (map zero_missing (rev d))
        = map zero_missing (sort_key (\<lambda>x. the_int (viewers_key x)) (rev d))"
    by (simp add: sort_key_map viewers_key_zero_missing)
  have s: "sort_key (\<lambda>x. the_str (viewers_key x)) (map zero_missing (rev d))
        = map zero_missing (sort_key (\<lambda>x. the_str (viewers_key x)) (rev d))"
    by (simp add: sort_key_map viewers_key_zero_missing)
  show ?thesis
    by (simp add: sorted_reverse_def list_all_iff viewers_key_zero_missing rev_map i s)
qed

lemma channel_names_zero_missing: "channel_names (map zero_missing xs) = channel_names xs"
  by (induction xs) (simp_all add: channel_name_zero_missing split: option.splits sum.splits)

text \<open>
  C10. For a response with status 200: when one of the first 20 entries after sorting
  has no \<^verbatim>\<open>channel_name\<close>, \<^verbatim>\<open>scrape\<close> raises KeyError; and a response in which the
  entries without \<^verbatim>\<open>average_viewers\<close> carry the value 0 instead gives the same result,
  so such entries are ranked as having 0 viewers and are not rejected.
\<close>

theorem scrape_unvalidated:
  assumes ok: "status_code (channels srv ranking_url) = 200"
  shows "(\<forall>zs. sorted_reverse viewers_key (get_data [] (channels srv ranking_url)) = Inr zs
             \<and> (\<exists>s \<in> set (take 20 zs). channel_name s = None)
            \<longrightarrow> fst (scrape srv self) = Inl KeyError)
       \<and> (\<forall>srv' :: server. status_code (channels srv' ranking_url) = 200
             \<and> get_data [] (channels srv' ranking_url)
                 = map zero_missing (get_data [] (channels srv ranking_url))
            \<longrightarrow> fst (scrape srv' self) = fst (scrape srv self))"
proof (intro conjI allI impI)
  fix zs
  assume "sorted_reverse viewers_key (get_data [] (channels srv ranking_url)) = Inr zs
             \<and> (\<exists>s \<in> set (take 20 zs). channel_name s = None)"
  then show "fst (scrape srv self) = Inl KeyError"
    using ok by (simp add: scrape_def channel_names_missing)
next
  fix srv' :: server
  assume a: "status_code (channels srv' ranking_url) = 200
             \<and> get_data [] (channels srv' ranking_url)
                 = map zero_missing (get_data [] (channels srv ranking_url))"
  show "fst (scrape srv' self) = fst (scrape srv self)"
    using ok a
    by (simp add: scrape_def sorted_reverse_zero_missing take_map channel_names_zero_missing Let_def
        split: sum.splits)
qed

theorem scrape_unvalidated_witness:
  "fst (scrape (partial_server [\<lparr>channel_name = Some ''foo'', average_viewers = Some (PInt 100)\<rparr>,
                                \<lparr>channel_name = None, average_viewers = Some (PInt 7)\<rparr>]) GetStreamers_init)
     = Inl KeyError
   \<and> fst (scrape (partial_server [\<lparr>channel_name = Some ''x'', average_viewers = Some (PInt (- 3))\<rparr>,
                                  \<lparr>channel_name = Some ''y'', average_viewers = None\<rparr>,
                                  \<lparr>channel_name = Some ''z'', average_viewers = Some (PInt 5)\<rparr>]) GetStreamers_init)
     = fst (scrape (partial_server [\<lparr>channel_name = Some ''x'', average_viewers = Some (PInt (- 3))\<rparr>,
                                  \<lparr>channel_name = Some ''y'', average_viewers = Some (PInt 0)\<rparr>,
                                  \<lparr>channel_name = Some ''z'', average_viewers = Some (PInt 5)\<rparr>]) GetStreamers_init)
   \<and> fst (scrape (partial_server [\<lparr>channel_name = Some ''x'', average_viewers = Some (PInt (- 3))\<rparr>,
                                  \<lparr>channel_name = Some ''y'', average_viewers = None\<rparr>,
                                  \<lparr>channel_name = Some ''z'', average_viewers = Some (PInt 5)\<rparr>]) GetStreamers_init)
     = Inr [''z'', ''y'', ''x'']"
proof -
  let ?a = "[\<lparr>channel_name = Some ''foo'', average_viewers = Some (PInt 100)\<rparr>,
             \<lparr>channel_name = None, average_viewers = Some (PInt 7)\<rparr>]"
  let ?b = "[\<lparr>channel_name = Some ''x'', average_viewers = Some (PInt (- 3))\<rparr>,
             \<lparr>channel_name = Some ''y'', average_viewers = None\<rparr>,
             \<lparr>channel_name = Some ''z'', average_viewers = Some (PInt 5)\<rparr>]"
  let ?b' = "[\<lparr>channel_name = Some ''x'', average_viewers = Some (PInt (- 3))\<rparr>,
              \<lparr>channel_name = Some ''y'', average_viewers = Some (PInt 0)\<rparr>,
              \<lparr>channel_name = Some ''z'', average_viewers = Some (PInt 5)\<rparr>]"
  have ok: "status_code (channels (partial_server es) ranking_url) = 200" for es
    by (simp add: partial_server_def)
  have d: "get_data [] (channels (partial_server es) ranking_url) = es" for es
    by (simp add: partial_server_def get_data_def)
  have sa: "sorted_reverse viewers_key ?a = Inr ?a"
    by code_simp
  have ma: "\<exists>s \<in> set (take 20 ?a). channel_name s = None"
    by simp
  have zb: "?b' = map zero_missing ?b"
    by (simp add: zero_missing_def)
  from scrape_unvalidated[OF ok, of ?a GetStreamers_init] sa ma
  have 1: "fst (scrape (partial_server ?a) GetStreamers_init) = Inl KeyError"
    unfolding d by blast
  from scrape_unvalidated[OF ok, of ?b GetStreamers_init] ok[of ?b'] zb
  have 2: "fst (scrape (partial_server ?b) GetStreamers_init)
         = fst (scrape (partial_server ?b') GetStreamers_init)"
    unfolding d by (metis d)
  have 3: "fst (scrape (partial_server ?b) GetStreamers_init) = Inr [''z'', ''y'', ''x'']"
    by code_simp
  from 1 2 3 show ?thesis by blast
qed

section \<open>A run with an empty ranking\<close>

lemma scrape_object:
  assumes "scrape srv self = (r, gs, ev)"
  shows "history_data gs = history_data self" and "r = Inr names \<Longrightarrow> streamers gs = names"
  using assms
  by (auto simp: scrape_def Let_def split: if_splits sum.splits)

lemma append_last_event:
  "last (snd (append adapt streamer_lines db)) = Log INFO ''All data appended to streamer tables.''"
  by (simp add: append_def Let_def)

text \<open>
  C4, as amended. \<^verbatim>\<open>main\<close> has no test for an empty ranking. A run that has both
  credentials and whose ranking request raises no exception always goes on to the last
  log line of the append step; the only early return is the one for missing
  credentials. When the ranking is empty, the later steps run with nothing to work on:
  no history request is sent, no table is created and no row is inserted, the database
  is unchanged, but the schema step and the append step each open a connection, commit
  and close it.
\<close>

theorem main_empty_ranking:
  assumes cid: "\<not> falsy (CLIENT_ID e)" and tok: "\<not> falsy (TOKEN e)"
    and scr: "scrape srv GetStreamers_init = (Inr strs, gs, ev)"
  shows "fst (main ucd e srv adapt db) = None
       \<and> last (snd (snd (main ucd e srv adapt db))) = Log INFO ''All data appended to streamer tables.''
       \<and> (strs = [] \<longrightarrow>
            main ucd e srv adapt db =
              (None, db,
               ev @ [Print ''Streamers:'',
                     Log INFO ''Fetching history for each streamer at multiple time points...'',
                     Log INFO ''Checking/creating PostgreSQL tables for each streamer...'',
                     DbConnect, DbCommit, DbClose,
                     Log INFO ''All streamer tables ready.'',
                     Log INFO ''Formatting history data for per-streamer table insertion...'',
                     Print ''Formatted streamer lines:'',
                     Log INFO ''Appending data to each streamer's table in PostgreSQL...'',
                     DbConnect, DbCommit, DbClose,
                     Log INFO ''All data appended to streamer tables.'']))"
proof (intro conjI impI)
  show "fst (main ucd e srv adapt db) = None"
    using cid tok scr by (simp add: main_def Let_def split: prod.splits)
  show "last (snd (snd (main ucd e srv adapt db))) = Log INFO ''All data appended to streamer tables.''"
    using cid tok scr append_last_event
    by (simp add: main_def Let_def append_def split: prod.splits)
next
  assume empty: "strs = []"
  have hd: "history_data gs = []" and st: "streamers gs = []"
    using scrape_object[OF scr] empty by (simp_all add: GetStreamers_init_def)
  have hist: "history srv gs =
      ([], gs, [Log INFO ''Fetching history for each streamer at multiple time points...''])"
    by (simp add: history_def st hd)
  show "main ucd e srv adapt db =
              (None, db,
               ev @ [Print ''Streamers:'',
                     Log INFO ''Fetching history for each streamer at multiple time points...'',
                     Log INFO ''Checking/creating PostgreSQL tables for each streamer...'',
                     DbConnect, DbCommit, DbClose,
                     Log INFO ''All streamer tables ready.'',
                     Log INFO ''Formatting history data for per-streamer table insertion...'',
                     Print ''Formatted streamer lines:'',
                     Log INFO ''Appending data to each streamer's table in PostgreSQL...'',
                     DbConnect, DbCommit, DbClose,
                     Log INFO ''All data appended to streamer tables.''])"
    using cid tok scr empty
    by (simp add: main_def hist database_def format_def append_def connect_def commit_def)
qed

theorem main_empty_ranking_witness:
  "\<not> falsy (CLIENT_ID some_env) \<and> \<not> falsy (TOKEN some_env)
   \<and> fst (scrape failing_server GetStreamers_init) = Inr []
   \<and> main greek some_env failing_server int4_adapter Map.empty =
       (None, Map.empty,
        [Log INFO ''Requesting Twitch streamers (limit: 20, sorted by average_viewers)...'',
         HttpGet ranking_url,
         Log ERROR ''Failed to fetch streamers'',
         Print ''Streamers:'',
         Log INFO ''Fetching history for each streamer at multiple time points...'',
         Log INFO ''Checking/creating PostgreSQL tables for each streamer...'',
         DbConnect, DbCommit, DbClose,
         Log INFO ''All streamer tables ready.'',
         Log INFO ''Formatting history data for per-streamer table insertion...'',
         Print ''Formatted streamer lines:'',
         Log INFO ''Appending data to each streamer's table in PostgreSQL...'',
         DbConnect, DbCommit, DbClose,
         Log INFO ''All data appended to streamer tables.''])"
proof -
  have c: "\<not> falsy (CLIENT_ID some_env)" and t: "\<not> falsy (TOKEN some_env)"
    by (simp_all add: some_env_def falsy_def)
  have s: "scrape failing_server GetStreamers_init =
      (Inr [], GetStreamers_init\<lparr>streamers := []\<rparr>,
       [Log INFO ''Requesting Twitch streamers (limit: 20, sorted by average_viewers)...'',
        HttpGet ranking_url,
        Log ERROR ''Failed to fetch streamers''])"
    by (simp add: scrape_def failing_server_def)
  from main_empty_ranking[OF c t s, of greek int4_adapter Map.empty] c t s
  show ?thesis by simp
qed

text \<open>
  C4 as stated fails: after a ranking request answered with status 500 the run still
  performs the schema step and the append step, each with its own connection and commit.
\<close>

theorem main_empty_ranking_counterexample:
  "filter is_call (snd (snd (main greek some_env failing_server int4_adapter Map.empty)))
     = [HttpGet ranking_url, DbConnect, DbCommit, DbClose, DbConnect, DbCommit, DbClose]"
  by (simp add: main_def some_env_def falsy_def scrape_def failing_server_def GetStreamers_init_def
      history_def database_def format_def append_def connect_def commit_def)

section \<open>What append leaves in the database\<close>

lemma append_lines_run:
  "current (append_lines adapt tbl lines s) = run_pairs adapt (durable s) (map (Pair tbl) lines) (current s)
   \<and> durable (append_lines adapt tbl lines s) = durable s"
  by (induction lines arbitrary: s) (auto simp: rollback_def split: option.splits)

lemma run_pairs_append:
  "run_pairs adapt c (ps @ qs) w = run_pairs adapt c qs (run_pairs adapt c ps w)"
  by (induction ps arbitrary: w) simp_all

lemma append_tables_run:
  "current (append_tables adapt items s) = run_pairs adapt (durable s) (pairs_of items) (current s)
   \<and> durable (append_tables adapt items s) = durable s"
proof (induction items arbitrary: s)
  case Nil
  then show ?case by (simp add: pairs_of_def)
next
  case (Cons item items)
  obtain tbl lines where item: "item = (tbl, lines)" by (cases item)
  show ?case
    using Cons.IH[of "append_lines adapt tbl lines s"] append_lines_run[of adapt tbl lines s]
    by (simp add: item pairs_of_def run_pairs_append)
qed

lemma append_run: "fst (append adapt items db) = run_pairs adapt db (pairs_of items) db"
  by (simp add: append_def Let_def commit_def connect_def append_tables_run)

lemma insert_row_None: "insert_row adapt t l w = None \<longleftrightarrow> \<not> good adapt (dom w) (t, l)"
  by (auto simp: insert_row_def good_def split: option.splits)

lemma insert_row_dom: "insert_row adapt t l w = Some w' \<Longrightarrow> dom w' = dom w"
  by (auto simp: insert_row_def split: option.splits if_splits)

lemma dom_ins: "dom (ins adapt p w) = dom w"
  by (simp add: ins_def insert_row_dom split: option.splits)

lemma dom_fold_ins: "dom (fold (ins adapt) ps w) = dom w"
  by (induction ps arbitrary: w) (simp_all add: dom_ins)

lemma kept_all_good: "list_all (good adapt D) ps \<Longrightarrow> kept adapt D ps = ps"
  by (cases ps) simp_all

lemma kept_good: "list_all (good adapt D) (kept adapt D ps)"
  by (induction ps) simp_all

lemma run_pairs_kept:
  "dom w = dom c \<Longrightarrow>
     run_pairs adapt c ps w =
       fold (ins adapt) (kept adapt (dom c) ps) (if list_all (good adapt (dom c)) ps then w else c)"
proof (induction ps arbitrary: w)
  case Nil
  then show ?case by simp
next
  case (Cons p ps)
  show ?case
  proof (cases "insert_row adapt (fst p) (snd p) w")
    case None
    then have bad: "\<not> good adapt (dom c) p"
      using insert_row_None[of adapt "fst p" "snd p" w] Cons.prems by simp
    have "run_pairs adapt c (p # ps) w = run_pairs adapt c ps c"
      by (simp add: None)
    also have "\<dots> = fold (ins adapt) (kept adapt (dom c) ps) c"
      using Cons.IH[of c] by simp
    finally show ?thesis
      using bad by (simp add: kept_all_good)
  next
    case (Some w')
    then have ok: "good adapt (dom c) p"
      using insert_row_None[of adapt "fst p" "snd p" w] Cons.prems by simp
    have w': "w' = ins adapt p w" by (simp add: ins_def Some)
    have "dom w' = dom c"
      using insert_row_dom[OF Some] Cons.prems by simp
    from Cons.IH[OF this] show ?thesis
      using ok by (simp add: Some w' kept_all_good)
  qed
qed

lemma ins_good:
  assumes "good adapt (dom w) p"
  obtains rows r where "w (fst p) = Some rows" "adapt (snd p) = Some r"
    "ins adapt p w = (if fst r \<in> fst ` set rows then w else w(fst p \<mapsto> rows @ [r]))"
  using assms by (auto simp: good_def ins_def insert_row_def)

lemma ins_not_good: "\<not> good adapt (dom w) p \<Longrightarrow> ins adapt p w = w"
  using insert_row_None[of adapt "fst p" "snd p" w] by (simp add: ins_def)

lemma present_ins_self:
  assumes "good adapt (dom w) p"
  shows "present adapt (ins adapt p w) p"
proof -
  from ins_good[OF assms] obtain rows r where f: "w (fst p) = Some rows" "adapt (snd p) = Some r"
    "ins adapt p w = (if fst r \<in> fst ` set rows then w else w(fst p \<mapsto> rows @ [r]))"
    by blast
  show ?thesis
  proof (cases "fst r \<in> fst ` set rows")
    case True
    with f show ?thesis unfolding present_def by auto
  next
    case False
    with f have "ins adapt p w (fst p) = Some (rows @ [r])" by simp
    moreover have "fst r \<in> fst ` set (rows @ [r])" by simp
    ultimately show ?thesis unfolding present_def using f(2) by blast
  qed
qed

lemma present_ins_mono:
  assumes "present adapt w q"
  shows "present adapt (ins adapt p w) q"
proof (cases "good adapt (dom w) p")
  case False
  then show ?thesis using assms by (simp add: ins_not_good)
next
  case True
  from ins_good[OF True] obtain rows r where f: "w (fst p) = Some rows" "adapt (snd p) = Some r"
    "ins adapt p w = (if fst r \<in> fst ` set rows then w else w(fst p \<mapsto> rows @ [r]))"
    by blast
  from assms obtain rows' r' where g: "w (fst q) = Some rows'" "adapt (snd q) = Some r'"
    "fst r' \<in> fst ` set rows'"
    unfolding present_def by blast
  show ?thesis
  proof (cases "fst r \<in> fst ` set rows \<or> fst p \<noteq> fst q")
    case True
    with f g show ?thesis unfolding present_def by auto
  next
    case False
    with f g have "ins adapt p w (fst q) = Some (rows' @ [r])" by simp
    moreover have "fst r' \<in> fst ` set (rows' @ [r])" using g(3) by simp
    ultimately show ?thesis unfolding present_def using g(2) by blast
  qed
qed

lemma present_fold_mono: "present adapt w q \<Longrightarrow> present adapt (fold (ins adapt) ps w) q"
  by (induction ps arbitrary: w) (simp_all add: present_ins_mono)

lemma present_after_fold:
  "list_all (good adapt (dom w)) ps \<Longrightarrow> q \<in> set ps \<Longrightarrow> present adapt (fold (ins adapt) ps w) q"
proof (induction ps arbitrary: w)
  case Nil
  then show ?case by simp
next
  case (Cons p ps)
  from Cons.prems have good: "good adapt (dom w) p" and rest: "list_all (good adapt (dom (ins adapt p w))) ps"
    by (simp_all add: dom_ins)
  show ?case
  proof (cases "q = p")
    case True
    then show ?thesis
      using present_fold_mono[OF present_ins_self[OF good] ] by simp
  next
    case False
    with Cons.prems have "q \<in> set ps" by simp
    from Cons.IH[OF rest this] show ?thesis by simp
  qed
qed

lemma ins_present:
  assumes "present adapt w p"
  shows "ins adapt p w = w"
proof -
  from assms obtain rows r where "w (fst p) = Some rows" "adapt (snd p) = Some r"
    "fst r \<in> fst ` set rows"
    unfolding present_def by blast
  then show ?thesis by (simp add: ins_def insert_row_def)
qed

lemma fold_ins_present: "\<forall>q \<in> set ps. present adapt w q \<Longrightarrow> fold (ins adapt) ps w = w"
  by (induction ps) (simp_all add: ins_present)

lemma run_pairs_idem:
  "run_pairs adapt (run_pairs adapt c ps c) ps (run_pairs adapt c ps c) = run_pairs adapt c ps c"
proof -
  define K where "K = kept adapt (dom c) ps"
  define R where "R = fold (ins adapt) K c"
  have R: "run_pairs adapt c ps c = R"
    using run_pairs_kept[of c c adapt ps] by (simp add: R_def K_def)
  have dom: "dom R = dom c" by (simp add: R_def dom_fold_ins)
  have "run_pairs adapt R ps R = fold (ins adapt) K R"
    using run_pairs_kept[of R R adapt ps] by (simp add: dom K_def)
  also have "\<dots> = R"
  proof (rule fold_ins_present)
    have "list_all (good adapt (dom c)) K" by (simp add: K_def kept_good)
    then show "\<forall>q \<in> set K. present adapt R q"
      unfolding R_def using present_after_fold by blast
  qed
  finally show ?thesis by (simp add: R)
qed

lemma append_idem:
  "fst (append adapt items (fst (append adapt items db))) = fst (append adapt items db)"
  by (simp add: append_run run_pairs_idem)

section \<open>Appending a record twice\<close>

lemma unique_dates_insert_row:
  "unique_dates w \<Longrightarrow> insert_row adapt t l w = Some w' \<Longrightarrow> unique_dates w'"
  by (auto simp: unique_dates_def insert_row_def split: option.splits if_splits)

lemma unique_dates_run_pairs:
  "unique_dates c \<Longrightarrow> unique_dates w \<Longrightarrow> unique_dates (run_pairs adapt c ps w)"
proof (induction ps arbitrary: w)
  case Nil
  then show ?case by simp
next
  case (Cons p ps)
  show ?case
  proof (cases "insert_row adapt (fst p) (snd p) w")
    case None
    then show ?thesis using Cons by simp
  next
    case (Some w')
    then have "unique_dates w'" using unique_dates_insert_row Cons.prems(2) by blast
    then show ?thesis using Cons Some by simp
  qed
qed

lemma unique_dates_append: "unique_dates db \<Longrightarrow> unique_dates (fst (append adapt items db))"
  by (simp add: append_run unique_dates_run_pairs)

lemma filter_unique_date:
  "distinct (map fst rows) \<Longrightarrow>
     filter (\<lambda>x. fst x = k) rows = (case find (\<lambda>x. fst x = k) rows of None \<Rightarrow> [] | Some old \<Rightarrow> [old])"
proof (induction rows)
  case Nil
  then show ?case by simp
next
  case (Cons x rows)
  show ?case
  proof (cases "fst x = k")
    case True
    with Cons.prems have "k \<notin> fst ` set rows" by auto
    then have "filter (\<lambda>x. fst x = k) rows = []"
      by (auto simp: filter_empty_conv)
    with True show ?thesis by simp
  next
    case False
    with Cons show ?thesis by simp
  qed
qed

lemma append_single:
  assumes "db tbl = Some rows" "adapt ln = Some r"
  shows "fst (append adapt [(tbl, [ln])] db) =
           (if fst r \<in> fst ` set rows then db else db(tbl \<mapsto> rows @ [r]))"
  using assms by (simp add: append_run pairs_of_def insert_row_def)

text \<open>
  C1. Appending any batch a second time leaves the database as the first append left
  it, and \<^verbatim>\<open>append\<close> keeps the dates of every table distinct. For a record that the
  store accepts and a table that exists: the record twice in one batch gives what the
  record once gives, and after appending it twice the table holds exactly one row for
  its period, which is the row that was there before when there was one (it is not
  overwritten) and the new row otherwise.
\<close>

theorem append_same_record_twice:
  assumes tbl: "db tbl = Some rows" and uniq: "distinct (map fst rows)" and ok: "adapt ln = Some r"
  shows "fst (append adapt streamer_lines (fst (append adapt streamer_lines db)))
           = fst (append adapt streamer_lines db)
       \<and> (unique_dates db \<longrightarrow> unique_dates (fst (append adapt streamer_lines db)))
       \<and> fst (append adapt [(tbl, [ln, ln])] db) = fst (append adapt [(tbl, [ln])] db)
       \<and> (\<exists>rows'. fst (append adapt [(tbl, [ln])] (fst (append adapt [(tbl, [ln])] db))) tbl = Some rows'
            \<and> distinct (map fst rows')
            \<and> filter (\<lambda>x. fst x = fst r) rows'
                = (case find (\<lambda>x. fst x = fst r) rows of None \<Rightarrow> [r] | Some old \<Rightarrow> [old]))"
proof (intro conjI impI)
  show "fst (append adapt streamer_lines (fst (append adapt streamer_lines db)))
           = fst (append adapt streamer_lines db)"
    by (rule append_idem)
  show "unique_dates (fst (append adapt streamer_lines db))" if "unique_dates db"
    using that by (rule unique_dates_append)
  show "fst (append adapt [(tbl, [ln, ln])] db) = fst (append adapt [(tbl, [ln])] db)"
    using tbl ok by (simp add: append_run pairs_of_def insert_row_def)
  define rows' where "rows' = (if fst r \<in> fst ` set rows then rows else rows @ [r])"
  have once: "fst (append adapt [(tbl, [ln])] db) tbl = Some rows'"
    using append_single[where db = db and tbl = tbl and adapt = adapt and ln = ln, OF tbl ok] tbl
    by (simp add: rows'_def)
  have twice: "fst (append adapt [(tbl, [ln])] (fst (append adapt [(tbl, [ln])] db))) tbl = Some rows'"
    using once by (simp add: append_idem)
  have d: "distinct (map fst rows')"
    using uniq by (simp add: rows'_def)
  have f: "filter (\<lambda>x. fst x = fst r) rows'
           = (case find (\<lambda>x. fst x = fst r) rows of None \<Rightarrow> [r] | Some old \<Rightarrow> [old])"
  proof (cases "fst r \<in> fst ` set rows")
    case True
    then obtain x where "x \<in> set rows" "fst x = fst r" by auto
    then have "find (\<lambda>x. fst x = fst r) rows \<noteq> None"
      unfolding find_None_iff by blast
    then show ?thesis
      using True filter_unique_date[OF uniq, of "fst r"] by (auto simp: rows'_def)
  next
    case False
    then have "find (\<lambda>x. fst x = fst r) rows = None"
      unfolding find_None_iff by (metis imageI)
    then show ?thesis
      using False filter_unique_date[OF uniq, of "fst r"] by (simp add: rows'_def)
  qed
  from twice d f
  show "\<exists>rows'. fst (append adapt [(tbl, [ln])] (fst (append adapt [(tbl, [ln])] db))) tbl = Some rows'
            \<and> distinct (map fst rows')
            \<and> filter (\<lambda>x. fst x = fst r) rows'
                = (case find (\<lambda>x. fst x = fst r) rows of None \<Rightarrow> [r] | Some old \<Rightarrow> [old])"
    by blast
qed

theorem append_same_record_twice_witness:
  "foo_database ''streamer_foo'' = Some [(''7-days'', Some 100, Some 4)]
   \<and> distinct (map fst [(''7-days'', Some (100::int), Some (4::int))])
   \<and> int4_adapter (PStr ''7-days'', PInt 120, PInt 5) = Some (''7-days'', Some 120, Some 5)
   \<and> (\<exists>rows'. fst (append int4_adapter [(''streamer_foo'', [(PStr ''7-days'', PInt 120, PInt 5)])]
           (fst (append int4_adapter [(''streamer_foo'', [(PStr ''7-days'', PInt 120, PInt 5)])]
                  foo_database))) ''streamer_foo'' = Some rows'
         \<and> filter (\<lambda>x. fst x = ''7-days'') rows' = [(''7-days'', Some 100, Some 4)])
   \<and> int4_adapter (PStr ''last-month'', PInt 90, PNone) = Some (''last-month'', Some 90, None)
   \<and> (\<exists>rows'. fst (append int4_adapter [(''streamer_foo'', [(PStr ''last-month'', PInt 90, PNone)])]
           (fst (append int4_adapter [(''streamer_foo'', [(PStr ''last-month'', PInt 90, PNone)])]
                  foo_database))) ''streamer_foo'' = Some rows'
         \<and> filter (\<lambda>x. fst x = ''last-month'') rows' = [(''last-month'', Some 90, None)])"
proof -
  have h1: "foo_database ''streamer_foo'' = Some [(''7-days'', Some 100, Some 4)]"
    by (simp add: foo_database_def)
  have h2: "distinct (map fst [(''7-days'', Some (100::int), Some (4::int))])"
    by simp
  have h3: "int4_adapter (PStr ''7-days'', PInt 120, PInt 5) = Some (''7-days'', Some 120, Some 5)"
    by simp
  have h4: "int4_adapter (PStr ''last-month'', PInt 90, PNone) = Some (''last-month'', Some 90, None)"
    by simp
  have c1: "\<exists>rows'. fst (append int4_adapter [(''streamer_foo'', [(PStr ''7-days'', PInt 120, PInt 5)])]
           (fst (append int4_adapter [(''streamer_foo'', [(PStr ''7-days'', PInt 120, PInt 5)])]
                  foo_database))) ''streamer_foo'' = Some rows'
         \<and> filter (\<lambda>x. fst x = ''7-days'') rows' = [(''7-days'', Some 100, Some 4)]"
    using append_same_record_twice[where db = foo_database and tbl = "''streamer_foo''"
        and adapt = int4_adapter and ln = "(PStr ''7-days'', PInt 120, PInt 5)"
        and streamer_lines = "[]", OF h1 h2 h3]
    by (simp, blast)
  have c2: "\<exists>rows'. fst (append int4_adapter [(''streamer_foo'', [(PStr ''last-month'', PInt 90, PNone)])]
           (fst (append int4_adapter [(''streamer_foo'', [(PStr ''last-month'', PInt 90, PNone)])]
                  foo_database))) ''streamer_foo'' = Some rows'
         \<and> filter (\<lambda>x. fst x = ''last-month'') rows' = [(''last-month'', Some 90, None)]"
    using append_same_record_twice[where db = foo_database and tbl = "''streamer_foo''"
        and adapt = int4_adapter and ln = "(PStr ''last-month'', PInt 90, PNone)"
        and streamer_lines = "[]", OF h1 h2 h4]
    by (simp, blast)
  from h1 h2 h3 h4 c1 c2 show ?thesis by blast
qed

section \<open>A failed insert inside a batch\<close>

text \<open>
  C2. The connection has one transaction for the whole batch and nothing is committed
  before the iteration ends, so the \<^verbatim>\<open>conn.rollback()\<close> of the \<^verbatim>\<open>except\<close> branch undoes every
  insert made so far. In a batch of three lines for one table whose second line is
  refused (an integer beyond 32 bits), the first line was inserted successfully and is
  lost: only the third line is stored.
\<close>

theorem append_rollback_discards_earlier_rows:
  "fst (append int4_adapter
          [(''streamer_foo'', [(PStr ''7-days'', PInt 120, PInt 5),
                               (PStr ''last-month'', PInt 3000000000, PInt 20),
                               (PStr ''last-year'', PInt 90, PInt 200)])]
          (Map.empty(''streamer_foo'' \<mapsto> []))) ''streamer_foo''
     = Some [(''last-year'', Some 90, Some 200)]
   \<and> snd (append int4_adapter
          [(''streamer_foo'', [(PStr ''7-days'', PInt 120, PInt 5),
                               (PStr ''last-month'', PInt 3000000000, PInt 20),
                               (PStr ''last-year'', PInt 90, PInt 200)])]
          (Map.empty(''streamer_foo'' \<mapsto> [])))
     = [Log INFO ''Appending data to each streamer's table in PostgreSQL...'',
        DbConnect,
        DbInsert ''streamer_foo'' (PStr ''7-days'', PInt 120, PInt 5),
        DbInsert ''streamer_foo'' (PStr ''last-month'', PInt 3000000000, PInt 20),
        Log ERROR ''Error inserting line'',
        DbRollback,
        DbInsert ''streamer_foo'' (PStr ''last-year'', PInt 90, PInt 200),
        DbCommit,
        DbClose,
        Log INFO ''All data appended to streamer tables.'']"
  by (simp add: append_def connect_def commit_def rollback_def insert_row_def)

section \<open>A history request that fails\<close>

lemma distinct_dict_set: "distinct (map fst d) \<Longrightarrow> distinct (map fst (dict_set d k v))"
  by (induction d) (auto simp: keys_dict_set)

lemma history_periods_data:
  assumes "map_of (history_data self) s = Some rs0"
  shows "map_of (history_data (fst (history_periods srv s ps (self, ev)))) k
           = (if k = s then Some (rs0 @ concat (map (fetched srv s) ps))
              else map_of (history_data self) k)"
  using assms
proof (induction ps arbitrary: self ev rs0)
  case Nil
  then show ?case by simp
next
  case (Cons p ps)
  let ?r = "channel srv (history_url s p)"
  show ?case
  proof (cases "status_code ?r = 200 \<and> get_data [] ?r \<noteq> []")
    case True
    let ?d = "dict_set (get_data [] ?r) ''date'' (PStr p)"
    let ?self = "self\<lparr>history_data := dict_set (history_data self) s (rs0 @ [?d])\<rparr>"
    let ?ev = "ev @ [HttpGet (history_url s p)] @ [Log INFO ''History record added.'']"
    have f: "fetched srv s p = [?d]"
      using True by (simp add: fetched_def)
    have step: "history_periods srv s (p # ps) (self, ev) = history_periods srv s ps (?self, ?ev)"
      using True Cons.prems by (simp add: Let_def)
    have "map_of (history_data ?self) s = Some (rs0 @ [?d])"
      by (simp add: map_of_dict_set)
    from Cons.IH[OF this, of ?ev]
    have "map_of (history_data (fst (history_periods srv s ps (?self, ?ev)))) k
           = (if k = s then Some ((rs0 @ [?d]) @ concat (map (fetched srv s) ps))
              else map_of (history_data self) k)"
      by (simp add: map_of_dict_set)
    then show ?thesis
      unfolding step by (simp only: f list.map concat.simps append_assoc)
  next
    case False
    then have f: "fetched srv s p = []"
      by (auto simp: fetched_def Let_def)
    define ev' where "ev' = (if status_code ?r = 200 then ev @ [HttpGet (history_url s p)]
        else (ev @ [HttpGet (history_url s p)]) @ [Log ERROR ''Failed to fetch history''])"
    have step: "history_periods srv s (p # ps) (self, ev) = history_periods srv s ps (self, ev')"
      using False by (simp add: Let_def ev'_def)
    from Cons.IH[OF Cons.prems, of ev'] show ?thesis
      unfolding step by (simp only: f list.map concat.simps append_Nil)
  qed
qed

lemma history_periods_keys:
  "distinct (map fst (history_data self)) \<Longrightarrow>
     distinct (map fst (history_data (fst (history_periods srv s ps (self, ev)))))"
  by (induction ps arbitrary: self ev) (auto simp: Let_def distinct_dict_set)

lemma history_streamers_data:
  "map_of (history_data (fst (history_streamers srv strs (self, ev)))) k
     = (if k \<in> set strs then Some (concat (map (fetched srv k) time_periods))
        else map_of (history_data self) k)"
proof (induction strs arbitrary: self ev)
  case Nil
  then show ?case by simp
next
  case (Cons s strs)
  let ?self = "self\<lparr>history_data := dict_set (history_data self) s []\<rparr>"
  obtain self' ev' where st: "history_periods srv s time_periods (?self, ev) = (self', ev')"
    by (cases "history_periods srv s time_periods (?self, ev)")
  have "map_of (history_data ?self) s = Some []"
    by (simp add: map_of_dict_set)
  from history_periods_data[OF this, of srv time_periods ev k]
  have "map_of (history_data self') k
           = (if k = s then Some (concat (map (fetched srv s) time_periods))
              else map_of (history_data self) k)"
    by (simp add: st map_of_dict_set)
  then show ?case
    using Cons.IH[of self' ev'] by (auto simp: st)
qed

lemma history_streamers_keys:
  "distinct (map fst (history_data self)) \<Longrightarrow>
     distinct (map fst (history_data (fst (history_streamers srv strs (self, ev)))))"
proof (induction strs arbitrary: self ev)
  case Nil
  then show ?case by simp
next
  case (Cons s strs)
  let ?self = "self\<lparr>history_data := dict_set (history_data self) s []\<rparr>"
  obtain self' ev' where st: "history_periods srv s time_periods (?self, ev) = (self', ev')"
    by (cases "history_periods srv s time_periods (?self, ev)")
  have "distinct (map fst (history_data ?self))"
    using Cons.prems by (simp add: distinct_dict_set)
  from history_periods_keys[OF this, of srv s time_periods ev]
  have "distinct (map fst (history_data self'))" by (simp add: st)
  from Cons.IH[OF this, of ev'] show ?case by (simp add: st)
qed

lemma history_data_eq:
  "fst (history srv self) = history_data (fst (history_streamers srv (streamers self)
      (self, [Log INFO ''Fetching history for each streamer at multiple time points...''])))"
  by (simp add: history_def split: prod.splits)

lemma history_lookup:
  "map_of (fst (history srv self)) k
     = (if k \<in> set (streamers self) then Some (concat (map (fetched srv k) time_periods))
        else map_of (history_data self) k)"
  by (simp add: history_data_eq history_streamers_data)

lemma history_distinct:
  "distinct (map fst (history_data self)) \<Longrightarrow> distinct (map fst (fst (history srv self)))"
  by (simp add: history_data_eq history_streamers_keys)

lemma history_items:
  assumes "history_data self = []" "(s, rs) \<in> set (fst (history srv self))"
  shows "s \<in> set (streamers self) \<and> rs = concat (map (fetched srv s) time_periods)"
proof -
  have "distinct (map fst (fst (history srv self)))"
    using assms(1) by (simp add: history_distinct)
  then have "map_of (fst (history srv self)) s = Some rs"
    using assms(2) by simp
  then show ?thesis
    using assms(1) by (simp add: history_lookup split: if_splits)
qed

lemma format_records_line_of: "format_records rs [] = map line_of rs"
  by (simp add: format_records_map line_of_def)

lemma map_of_format_items:
  "map_of (format_items ucd items acc)
     = map_of (rev (map (\<lambda>(s, rs). (table_name ucd s, format_records rs [])) items) @ acc)"
proof (induction items arbitrary: acc)
  case Nil
  then show ?case by simp
next
  case (Cons item items)
  obtain s rs where item: "item = (s, rs)" by (cases item)
  show ?case
    by (simp add: item Cons.IH map_of_dict_set map_add_upd_left flip: map_add_def)
qed

lemma map_of_unique_value:
  assumes "(k, v) \<in> set xs" "\<forall>(k', v') \<in> set xs. k' = k \<longrightarrow> v' = v"
  shows "map_of xs k = Some v"
proof -
  from weak_map_of_SomeI[OF assms(1)] obtain v' where v': "map_of xs k = Some v'" by blast
  from map_of_SomeD[OF this] assms(2) have "v' = v" by auto
  with v' show ?thesis by simp
qed

lemma format_lookup:
  assumes "(s, rs) \<in> set items"
    and "\<forall>(s', rs') \<in> set items. table_name ucd s' = table_name ucd s \<longrightarrow> rs' = rs"
  shows "map_of (fst (format ucd items)) (table_name ucd s) = Some (map line_of rs)"
proof -
  let ?f = "\<lambda>(s, rs). (table_name ucd s, format_records rs [])"
  have "map_of (rev (map ?f items)) (table_name ucd s) = Some (format_records rs [])"
  proof (rule map_of_unique_value)
    show "(table_name ucd s, format_records rs []) \<in> set (rev (map ?f items))"
      using assms(1) by force
    show "\<forall>(k', v') \<in> set (rev (map ?f items)). k' = table_name ucd s \<longrightarrow> v' = format_records rs []"
      using assms(2) by auto
  qed
  then show ?thesis
    by (simp add: format_def map_of_format_items format_records_line_of)
qed

lemma pairs_of_member:
  "(t, l) \<in> set (pairs_of items) \<longleftrightarrow> (\<exists>lines. (t, lines) \<in> set items \<and> l \<in> set lines)"
  by (auto simp: pairs_of_def)

lemma append_all_good:
  assumes "list_all (good adapt (dom db)) (pairs_of items)" "q \<in> set (pairs_of items)"
  shows "present adapt (fst (append adapt items db)) q"
proof -
  have "fst (append adapt items db) = fold (ins adapt) (pairs_of items) db"
    using run_pairs_kept[of db db adapt "pairs_of items"] assms(1)
    by (simp add: append_run kept_all_good)
  then show ?thesis using present_after_fold[OF assms] by simp
qed

lemma append_tables_append:
  "append_tables adapt (xs @ ys) s = append_tables adapt ys (append_tables adapt xs s)"
  by (induction xs arbitrary: s) auto

lemma append_empty_entry: "append adapt (xs @ (tbl, []) # ys) db = append adapt (xs @ ys) db"
  by (simp add: append_def append_tables_append)

lemma main_pipeline:
  assumes "\<not> falsy (CLIENT_ID e)" "\<not> falsy (TOKEN e)"
    and "scrape srv GetStreamers_init = (Inr strs, gs, ev)"
  shows "fst (snd (main ucd e srv adapt db))
           = fst (append adapt (fst (format ucd (fst (history srv gs)))) (fst (database ucd strs db)))"
  using assms by (simp add: main_def Let_def split: prod.splits)

lemma pipeline_all_good:
  assumes hd: "history_data gs = []" and st: "streamers gs = strs"
    and acc: "\<forall>s \<in> set strs. \<forall>p \<in> set time_periods. \<forall>r \<in> set (fetched srv s p). adapt (line_of r) \<noteq> None"
  shows "list_all (good adapt (dom (fst (database ucd strs db))))
           (pairs_of (fst (format ucd (fst (history srv gs)))))"
  unfolding list_all_iff
proof
  fix q
  assume "q \<in> set (pairs_of (fst (format ucd (fst (history srv gs)))))"
  then obtain lines where lines: "(fst q, lines) \<in> set (format_items ucd (fst (history srv gs)) [])"
    and q: "snd q \<in> set lines"
    using pairs_of_member[of "fst q" "snd q"] by (auto simp: format_def)
  from format_items_source[OF lines] obtain s rs where src: "(s, rs) \<in> set (fst (history srv gs))"
    and t: "fst q = table_name ucd s" and l: "lines = format_records rs []"
    by auto
  from history_items[OF hd src] have s: "s \<in> set strs"
    and rs: "rs = concat (map (fetched srv s) time_periods)"
    by (simp_all add: st)
  from q obtain r where "r \<in> set rs" "snd q = line_of r"
    by (auto simp: l format_records_line_of)
  then obtain p where "p \<in> set time_periods" "r \<in> set (fetched srv s p)"
    by (auto simp: rs)
  with acc s have "adapt (line_of r) \<noteq> None" by blast
  moreover have "table_name ucd s \<in> dom (fst (database ucd strs db))"
    using s by (simp add: dom_database)
  ultimately show "good adapt (dom (fst (database ucd strs db))) q"
    using t \<open>snd q = line_of r\<close> by (simp add: good_def)
qed

text \<open>
  C8. In a run that has its credentials and a ranking, for every ranked entity:
  the records collected for it are, window by window, what each request on its own
  gives, so a request that fails or has no data leaves out its own record and nothing
  else; when no window gives a record the entity is kept in the history map with an
  empty list; a table with an empty list of lines in the batch makes \<^verbatim>\<open>append\<close> do
  exactly what it does without that entry; when no other ranked entity has the same
  table name, \<^verbatim>\<open>format\<close> gives the entity's table one line per collected record (none
  for an empty list); and when moreover the store accepts every collected record, each
  record collected for the entity has a row with its period in the entity's table at
  the end of the run.
\<close>

theorem failed_fetch_is_local:
  assumes cid: "\<not> falsy (CLIENT_ID e)" and tok: "\<not> falsy (TOKEN e)"
    and scr: "scrape srv GetStreamers_init = (Inr strs, gs, ev)"
    and mem: "streamer \<in> set strs"
  shows "map_of (fst (history srv gs)) streamer
           = Some (concat (map (fetched srv streamer) time_periods))
       \<and> ((\<forall>period \<in> set time_periods. fetched srv streamer period = [])
            \<longrightarrow> map_of (fst (history srv gs)) streamer = Some [])
       \<and> append adapt (xs @ (tbl, []) # ys) db' = append adapt (xs @ ys) db'
       \<and> ((\<forall>s \<in> set strs. table_name ucd s = table_name ucd streamer \<longrightarrow> s = streamer)
            \<longrightarrow> map_of (fst (format ucd (fst (history srv gs)))) (table_name ucd streamer)
                  = Some (map line_of (concat (map (fetched srv streamer) time_periods))))
       \<and> ((\<forall>s \<in> set strs. table_name ucd s = table_name ucd streamer \<longrightarrow> s = streamer)
            \<and> (\<forall>s \<in> set strs. \<forall>p \<in> set time_periods. \<forall>r \<in> set (fetched srv s p).
                   adapt (line_of r) \<noteq> None)
            \<longrightarrow> (\<forall>period \<in> set time_periods. \<forall>r \<in> set (fetched srv streamer period).
                   present adapt (fst (snd (main ucd e srv adapt db))) (table_name ucd streamer, line_of r)))"
proof -
  let ?rs = "concat (map (fetched srv streamer) time_periods)"
  let ?hist = "fst (history srv gs)"
  have hd: "history_data gs = []" and st: "streamers gs = strs"
    using scrape_object[OF scr] by (simp_all add: GetStreamers_init_def)
  have a: "map_of ?hist streamer = Some ?rs"
    using mem by (simp add: history_lookup st)
  have b: "map_of ?hist streamer = Some []" if "\<forall>period \<in> set time_periods. fetched srv streamer period = []"
    using a that by simp
  have c: "append adapt (xs @ (tbl, []) # ys) db' = append adapt (xs @ ys) db'"
    by (rule append_empty_entry)
  have d: "map_of (fst (format ucd ?hist)) (table_name ucd streamer) = Some (map line_of ?rs)"
    if uniq: "\<forall>s \<in> set strs. table_name ucd s = table_name ucd streamer \<longrightarrow> s = streamer"
  proof (rule format_lookup)
    show "(streamer, ?rs) \<in> set ?hist"
      using a by (rule map_of_SomeD)
    show "\<forall>(s', rs') \<in> set ?hist. table_name ucd s' = table_name ucd streamer \<longrightarrow> rs' = ?rs"
      using history_items[OF hd] uniq st by fastforce
  qed
  have e: "present adapt (fst (snd (main ucd e srv adapt db))) (table_name ucd streamer, line_of r)"
    if uniq: "\<forall>s \<in> set strs. table_name ucd s = table_name ucd streamer \<longrightarrow> s = streamer"
      and acc: "\<forall>s \<in> set strs. \<forall>p \<in> set time_periods. \<forall>r \<in> set (fetched srv s p).
                   adapt (line_of r) \<noteq> None"
      and p: "period \<in> set time_periods" and r: "r \<in> set (fetched srv streamer period)"
    for period r
  proof -
    have "r \<in> set ?rs" using p r by auto
    then have "line_of r \<in> set (map line_of ?rs)" by simp
    moreover have "(table_name ucd streamer, map line_of ?rs) \<in> set (fst (format ucd ?hist))"
      using d[OF uniq] by (rule map_of_SomeD)
    ultimately have "(table_name ucd streamer, line_of r) \<in> set (pairs_of (fst (format ucd ?hist)))"
      unfolding pairs_of_member by blast
    from append_all_good[OF pipeline_all_good[OF hd st acc] this]
    show ?thesis
      by (simp add: main_pipeline[OF cid tok scr])
  qed
  from a b c d e show ?thesis by blast
qed

theorem failed_fetch_is_local_witness:
  "\<not> falsy (CLIENT_ID some_env) \<and> \<not> falsy (TOKEN some_env)
   \<and> fst (scrape history_server GetStreamers_init) = Inr [''foo'', ''bar'']
   \<and> status_code (channel history_server (history_url ''foo'' ''last-month'')) = 500
   \<and> table_name greek ''bar'' \<noteq> table_name greek ''foo''
   \<and> list_all (\<lambda>s. list_all (\<lambda>p. list_all (\<lambda>r. int4_adapter (line_of r) \<noteq> None)
                                         (fetched history_server s p)) time_periods)
        [''foo'', ''bar'']
   \<and> list_all (\<lambda>period. fetched history_server ''bar'' period = []) time_periods
   \<and> map_of (fst (history history_server \<lparr>streamers = [''foo'', ''bar''], history_data = []\<rparr>)) ''foo''
       = Some [ [(''average_viewers'', PInt 120), (''stream_days'', PInt 5), (''date'', PStr ''7-days'')],
               [(''average_viewers'', PInt 90), (''stream_days'', PInt 200), (''date'', PStr ''last-year'')] ]
   \<and> map_of (fst (history history_server \<lparr>streamers = [''foo'', ''bar''], history_data = []\<rparr>)) ''bar''
       = Some []
   \<and> present int4_adapter (fst (snd (main greek some_env history_server int4_adapter Map.empty)))
         (''streamer_foo'', (PStr ''last-year'', PInt 90, PInt 200))
   \<and> fst (snd (main greek some_env history_server int4_adapter Map.empty)) ''streamer_foo''
       = Some [(''7-days'', Some 120, Some 5), (''last-year'', Some 90, Some 200)]
   \<and> fst (snd (main greek some_env history_server int4_adapter Map.empty)) ''streamer_bar'' = Some []"
proof -
  let ?gs = "\<lparr>streamers = [''foo'', ''bar''], history_data = []\<rparr>"
  have c: "\<not> falsy (CLIENT_ID some_env)" and t: "\<not> falsy (TOKEN some_env)"
    by (simp_all add: some_env_def falsy_def)
  have s: "scrape history_server GetStreamers_init =
      (Inr [''foo'', ''bar''], ?gs,
       [Log INFO ''Requesting Twitch streamers (limit: 20, sorted by average_viewers)...'',
        HttpGet ranking_url,
        Log INFO ''Found streamers (top 20 by average_viewers).''])"
    by code_simp
  have f: "status_code (channel history_server (history_url ''foo'' ''last-month'')) = 500"
    by code_simp
  have foo: "''foo'' \<in> set [''foo'', ''bar'']" and bar: "''bar'' \<in> set [''foo'', ''bar'']"
    by simp_all
  have tn: "table_name greek ''foo'' = ''streamer_foo''" "table_name greek ''bar'' = ''streamer_bar''"
    by code_simp+
  have u: "\<forall>s \<in> set [''foo'', ''bar'']. table_name greek s = table_name greek ''foo'' \<longrightarrow> s = ''foo''"
    by (simp add: tn)
  have fe: "fetched history_server ''foo'' ''7-days''
              = [ [(''average_viewers'', PInt 120), (''stream_days'', PInt 5), (''date'', PStr ''7-days'')] ]"
    "fetched history_server ''foo'' ''last-month'' = []"
    "fetched history_server ''foo'' ''last-year''
              = [ [(''average_viewers'', PInt 90), (''stream_days'', PInt 200), (''date'', PStr ''last-year'')] ]"
    "fetched history_server ''bar'' ''7-days'' = []"
    "fetched history_server ''bar'' ''last-month'' = []"
    "fetched history_server ''bar'' ''last-year'' = []"
    by code_simp+
  have a: "\<forall>s \<in> set [''foo'', ''bar'']. \<forall>p \<in> set time_periods. \<forall>r \<in> set (fetched history_server s p).
          int4_adapter (line_of r) \<noteq> None"
    by (simp add: time_periods_def fe line_of_def dict_get_def)
  have e: "\<forall>period \<in> set time_periods. fetched history_server ''bar'' period = []"
    by (simp add: time_periods_def fe)
  note thm_foo = failed_fetch_is_local[where ucd = greek and adapt = int4_adapter and xs = "[]"
      and tbl = "''t''" and ys = "[]" and db' = Map.empty and db = Map.empty, OF c t s foo]
  note thm_bar = failed_fetch_is_local[where ucd = greek and adapt = int4_adapter and xs = "[]"
      and tbl = "''t''" and ys = "[]" and db' = Map.empty and db = Map.empty, OF c t s bar]
  have r1: "map_of (fst (history history_server ?gs)) ''foo''
       = Some [ [(''average_viewers'', PInt 120), (''stream_days'', PInt 5), (''date'', PStr ''7-days'')],
               [(''average_viewers'', PInt 90), (''stream_days'', PInt 200), (''date'', PStr ''last-year'')] ]"
    using thm_foo by (simp add: time_periods_def fe)
  have r2: "map_of (fst (history history_server ?gs)) ''bar'' = Some []"
    using thm_bar e by blast
  have "line_of [(''average_viewers'', PInt 90), (''stream_days'', PInt 200), (''date'', PStr ''last-year'')]
          = (PStr ''last-year'', PInt 90, PInt 200)"
    by (simp add: line_of_def dict_get_def)
  moreover have "''last-year'' \<in> set time_periods"
    by (simp add: time_periods_def)
  ultimately have r3: "present int4_adapter (fst (snd (main greek some_env history_server int4_adapter Map.empty)))
         (''streamer_foo'', (PStr ''last-year'', PInt 90, PInt 200))"
    using thm_foo u a fe(3) tn(1) by (metis list.set_intros(1))
  have r4: "fst (snd (main greek some_env history_server int4_adapter Map.empty)) ''streamer_foo''
       = Some [(''7-days'', Some 120, Some 5), (''last-year'', Some 90, Some 200)]"
    by code_simp
  have r5: "fst (snd (main greek some_env history_server int4_adapter Map.empty)) ''streamer_bar'' = Some []"
    by code_simp
  have u': "table_name greek ''bar'' \<noteq> table_name greek ''foo''"
    by (simp add: tn)
  from a have a': "list_all (\<lambda>s. list_all (\<lambda>p. list_all (\<lambda>r. int4_adapter (line_of r) \<noteq> None)
                                         (fetched history_server s p)) time_periods)
        [''foo'', ''bar'']"
    unfolding list_all_iff .
  from e have e': "list_all (\<lambda>period. fetched history_server ''bar'' period = []) time_periods"
    unfolding list_all_iff .
  from c t s f u' a' e' r1 r2 r3 r4 r5 show ?thesis by simp
qed

end
